theory Spec2Isabelle
  imports Main "HOL-Library.Word"
begin

section \<open>SimpleFS: a shallow embedding of fs.c, disk.c and utils.h\<close>

text \<open>
  The development follows the later of the two drafts of \<^verbatim>\<open>fs.c\<close> (the one that has
  \<^verbatim>\<open>fs_expand_file\<close>), \<^verbatim>\<open>src/disk.c\<close> and \<^verbatim>\<open>include/sfs/utils.h\<close>.

  Conventions of the model.
  \<^item> \<^verbatim>\<open>size_t\<close> values are natural numbers below \<open>2 ^ 64\<close>, \<^verbatim>\<open>uint32_t\<close> values natural
    numbers below \<open>2 ^ 32\<close>; every place where C wraps around or truncates is written
    out with \<open>mod\<close>. \<^verbatim>\<open>ssize_t\<close> results are integers.
  \<^item> A block is the array of its bytes; the other members of the \<^verbatim>\<open>Block\<close> union
    (\<^verbatim>\<open>super\<close>, \<^verbatim>\<open>inodes\<close>, \<^verbatim>\<open>pointers\<close>) are views of the same bytes, read and
    written as little-endian 32-bit words.
  \<^item> Everything that ends the process or leaves the behaviour of the C program
    undefined is a value of type \<open>fault\<close>; a function that can meet one returns
    \<open>fault + result\<close>.
  \<^item> The system calls behind \<^verbatim>\<open>disk_read\<close> and \<^verbatim>\<open>disk_write\<close> (\<^verbatim>\<open>lseek\<close>, \<^verbatim>\<open>read\<close>,
    \<^verbatim>\<open>write\<close> on the image file) are taken to succeed; the counters \<^verbatim>\<open>reads\<close> and
    \<^verbatim>\<open>writes\<close> of the disk are diagnostics only and are left out.
\<close>

subsection \<open>Constants of the missing headers\<close>

text \<open>
  Modelled from the spec: the headers \<^verbatim>\<open>sfs/disk.h\<close> and \<^verbatim>\<open>sfs/fs.h\<close> are not part of the
  sources. The spec fixes \<open>BLOCK_SIZE = 4096\<close>, \<open>POINTERS_PER_INODE = 5\<close> and
  \<open>POINTERS_PER_BLOCK = 1024 = BLOCK_SIZE / sizeof(u32)\<close>; an inode packs \<open>valid\<close>,
  \<open>size\<close>, \<open>direct[POINTERS_PER_INODE]\<close> and \<open>indirect\<close> as 32-bit fields, 32 bytes in
  all, hence \<open>INODES_PER_BLOCK = BLOCK_SIZE / 32 = 128\<close>. \<open>MAGIC_NUMBER\<close> is a 32-bit
  tag; \<open>DISK_FAILURE\<close> is the negative failure value of the disk interface. The
  macros are plain \<^verbatim>\<open>int\<close> constants, so arithmetic that mixes them with a
  \<^verbatim>\<open>uint32_t\<close> is 32-bit arithmetic and with a \<^verbatim>\<open>size_t\<close> is 64-bit arithmetic.
\<close>

definition BLOCK_SIZE :: nat where
  "BLOCK_SIZE = 4096"

definition POINTERS_PER_INODE :: nat where
  "POINTERS_PER_INODE = 5"

definition POINTERS_PER_BLOCK :: nat where
  "POINTERS_PER_BLOCK = 1024"

definition INODES_PER_BLOCK :: nat where
  "INODES_PER_BLOCK = 128"

definition MAGIC_NUMBER :: nat where
  "MAGIC_NUMBER = 0xf0f03410"

definition DISK_FAILURE :: int where
  "DISK_FAILURE = - 1"

definition U32 :: nat where
  "U32 = 2 ^ 32"

definition U64 :: nat where
  "U64 = 2 ^ 64"

subsection \<open>utils.h\<close>

text \<open>
  \<^verbatim>\<open>min\<close> and \<^verbatim>\<open>max\<close> of utils.h are the conditional expressions of HOL's \<open>min\<close> and
  \<open>max\<close> on the common type of their arguments. \<^verbatim>\<open>UPPER_ROUND(x, size)\<close> is
  \<^verbatim>\<open>((x) + (size - 1)) / (size)\<close>, computed in the type of \<open>x\<close>: the argument \<open>w\<close> is
  the modulus of that type.
\<close>

definition UPPER_ROUND :: "nat \<Rightarrow> nat \<Rightarrow> nat \<Rightarrow> nat" where
  "UPPER_ROUND w x sz = ((x + (sz - 1)) mod w) div sz"

subsection \<open>Faults\<close>

datatype fault =
    ExitFailure         \<comment> \<open>\<^verbatim>\<open>exit(1)\<close>\<close>
  | AssertionFailure    \<comment> \<open>a failed \<^verbatim>\<open>assert\<close> aborts the process\<close>
  | OutOfBounds         \<comment> \<open>an access outside an array, or through a null pointer\<close>
  | Indeterminate       \<comment> \<open>use of a buffer that no read has filled\<close>

subsection \<open>Blocks and their views\<close>

type_synonym byte = "8 word"

type_synonym Block = "nat \<Rightarrow> byte"

definition zero_block :: Block where
  "zero_block = (\<lambda>_. 0)"

text \<open>\<^verbatim>\<open>block.pointers[k]\<close>: the 32-bit word at byte offset \<open>4 * k\<close>.\<close>

definition get32 :: "Block \<Rightarrow> nat \<Rightarrow> nat" where
  "get32 b k = unat (b (4 * k)) + 256 * unat (b (4 * k + 1))
     + 65536 * unat (b (4 * k + 2)) + 16777216 * unat (b (4 * k + 3))"

text \<open>\<^verbatim>\<open>block.pointers[k] = v\<close>; a value that does not fit 32 bits is truncated.\<close>

definition set32 :: "Block \<Rightarrow> nat \<Rightarrow> nat \<Rightarrow> Block" where
  "set32 b k v = b(4 * k := of_nat v, 4 * k + 1 := of_nat (v div 256),
     4 * k + 2 := of_nat (v div 65536), 4 * k + 3 := of_nat (v div 16777216))"

record SuperBlock =
  magic_number :: nat
  sb_blocks :: nat       \<comment> \<open>the field \<^verbatim>\<open>blocks\<close> of the superblock\<close>
  inode_blocks :: nat
  inodes :: nat

record Inode =
  valid :: nat
  isize :: nat           \<comment> \<open>the field \<^verbatim>\<open>size\<close>\<close>
  direct :: "nat list"   \<comment> \<open>\<^verbatim>\<open>direct[POINTERS_PER_INODE]\<close>\<close>
  indirect :: nat

text \<open>\<^verbatim>\<open>block.super\<close>: the first four words of the block.\<close>

definition get_super :: "Block \<Rightarrow> SuperBlock" where
  "get_super b = \<lparr>magic_number = get32 b 0, sb_blocks = get32 b 1,
     inode_blocks = get32 b 2, inodes = get32 b 3\<rparr>"

text \<open>\<^verbatim>\<open>block.inodes[j]\<close>: eight words from word \<open>8 * j\<close> on.\<close>

definition get_inode :: "Block \<Rightarrow> nat \<Rightarrow> Inode" where
  "get_inode b j = \<lparr>valid = get32 b (8 * j), isize = get32 b (8 * j + 1),
     direct = map (\<lambda>k. get32 b (8 * j + 2 + k)) [0..<POINTERS_PER_INODE],
     indirect = get32 b (8 * j + 7)\<rparr>"

fun set_words :: "Block \<Rightarrow> nat \<Rightarrow> nat list \<Rightarrow> Block" where
  "set_words b k [] = b"
| "set_words b k (v # vs) = set_words (set32 b k v) (Suc k) vs"

definition set_inode :: "Block \<Rightarrow> nat \<Rightarrow> Inode \<Rightarrow> Block" where
  "set_inode b j nd =
     set32 (set_words (set32 (set32 b (8 * j) (valid nd)) (8 * j + 1) (isize nd))
       (8 * j + 2) (take POINTERS_PER_INODE (direct nd))) (8 * j + 7) (indirect nd)"

text \<open>\<^verbatim>\<open>memset(&inode, 0, sizeof(inode))\<close>.\<close>

definition zero_inode :: Inode where
  "zero_inode = \<lparr>valid = 0, isize = 0, direct = replicate POINTERS_PER_INODE 0, indirect = 0\<rparr>"

subsection \<open>disk.c\<close>

record Disk =
  fd :: int
  blocks :: nat
  contents :: "nat \<Rightarrow> Block"   \<comment> \<open>the image file, block by block\<close>

text \<open>
  A \<^verbatim>\<open>Disk *\<close> is a \<open>Disk option\<close>, \<open>None\<close> the null pointer. The \<^verbatim>\<open>data\<close> argument
  of the sanity check is never null in fs.c (always a local buffer).
\<close>

definition disk_sanity_check :: "Disk option \<Rightarrow> nat \<Rightarrow> bool" where
  "disk_sanity_check disk block =
     (case disk of None \<Rightarrow> False | Some d \<Rightarrow> 0 \<le> fd d \<and> block < blocks d)"

text \<open>
  The result of \<^verbatim>\<open>disk_read\<close> is \<open>Some\<close> of the block copied into the buffer when the
  call returns \<open>BLOCK_SIZE\<close>, and \<open>None\<close> when it returns \<open>DISK_FAILURE\<close> and leaves the
  buffer as it was; \<open>read_status\<close> is the number returned.
\<close>

definition disk_read :: "Disk option \<Rightarrow> nat \<Rightarrow> Block option" where
  "disk_read disk block =
     (if disk_sanity_check disk block then Some (contents (the disk) block) else None)"

definition read_status :: "Block option \<Rightarrow> int" where
  "read_status r = (case r of None \<Rightarrow> DISK_FAILURE | Some _ \<Rightarrow> int BLOCK_SIZE)"

definition disk_write :: "Disk option \<Rightarrow> nat \<Rightarrow> Block \<Rightarrow> int \<times> Disk option" where
  "disk_write disk block data =
     (if disk_sanity_check disk block
      then (int BLOCK_SIZE, Some ((the disk)\<lparr>contents := (contents (the disk))(block := data)\<rparr>))
      else (DISK_FAILURE, disk))"

subsection \<open>The file system structure, the allocator\<close>

record FileSystem =
  disk :: "Disk option"
  meta_data :: SuperBlock
  free_blocks :: "bool list option"   \<comment> \<open>\<open>None\<close>: the null pointer\<close>

text \<open>
  \<^verbatim>\<open>fs->disk->blocks\<close> and \<^verbatim>\<open>fs->free_blocks[i]\<close>, with the null pointers and the end
  of the bitmap as faults.
\<close>

definition disk_blocks :: "FileSystem \<Rightarrow> fault + nat" where
  "disk_blocks fs = (case disk fs of None \<Rightarrow> Inl OutOfBounds | Some d \<Rightarrow> Inr (blocks d))"

definition bitmap_get :: "FileSystem \<Rightarrow> nat \<Rightarrow> fault + bool" where
  "bitmap_get fs i =
     (case free_blocks fs of None \<Rightarrow> Inl OutOfBounds
      | Some bm \<Rightarrow> if i < length bm then Inr (bm ! i) else Inl OutOfBounds)"

definition bitmap_set :: "FileSystem \<Rightarrow> nat \<Rightarrow> bool \<Rightarrow> fault + FileSystem" where
  "bitmap_set fs i v =
     (case free_blocks fs of None \<Rightarrow> Inl OutOfBounds
      | Some bm \<Rightarrow> if i < length bm then Inr (fs\<lparr>free_blocks := Some (bm[i := v])\<rparr>)
                   else Inl OutOfBounds)"

text \<open>
  The scan of \<^verbatim>\<open>fs_allocate_free_block\<close>:
  \<^verbatim>\<open>while (i < fs->disk->blocks && !fs->free_blocks[i]) ++i;\<close>
\<close>

function alloc_scan :: "FileSystem \<Rightarrow> nat \<Rightarrow> nat \<Rightarrow> fault + nat" where
  "alloc_scan fs n i =
     (if i < n then
        (case bitmap_get fs i of
           Inl f \<Rightarrow> Inl f
         | Inr free \<Rightarrow> if \<not> free then alloc_scan fs n (i + 1) else Inr i)
      else Inr i)"
  by pat_completeness auto
termination
  by (relation "measure (\<lambda>(fs, n, i). n - i)") auto

declare alloc_scan.simps [simp del]

text \<open>
  \<^verbatim>\<open>size_t i = 1 + fs->meta_data.inode_blocks;\<close> is a 32-bit sum. The block found is
  returned as \<^verbatim>\<open>ssize_t\<close>, \<open>- 1\<close> when there is none.
\<close>

definition fs_allocate_free_block :: "FileSystem \<Rightarrow> fault + (FileSystem \<times> int)" where
  "fs_allocate_free_block fs =
     (case disk_blocks fs of
        Inl f \<Rightarrow> Inl f
      | Inr n \<Rightarrow>
          (case alloc_scan fs n ((1 + inode_blocks (meta_data fs)) mod U32) of
             Inl f \<Rightarrow> Inl f
           | Inr i \<Rightarrow>
               if i < n then
                 (case bitmap_set fs i False of
                    Inl f \<Rightarrow> Inl f
                  | Inr fs' \<Rightarrow> Inr (fs', int i))
               else Inr (fs, - 1)))"

text \<open>\<^verbatim>\<open>assert(!fs->free_blocks[block_number]); fs->free_blocks[block_number] = true;\<close>\<close>

definition fs_release_free_block :: "FileSystem \<Rightarrow> nat \<Rightarrow> fault + FileSystem" where
  "fs_release_free_block fs block_number =
     (case bitmap_get fs block_number of
        Inl f \<Rightarrow> Inl f
      | Inr free \<Rightarrow> if free then Inl AssertionFailure else bitmap_set fs block_number True)"

subsection \<open>Loading and saving an inode\<close>

text \<open>
  Several calls in fs.c test a disk operation with \<^verbatim>\<open>!disk_read(...)\<close> or
  \<^verbatim>\<open>!disk_write(...)\<close>. The status is \<open>BLOCK_SIZE\<close> or \<open>DISK_FAILURE\<close>, neither of them
  \<open>0\<close>, so such a test does not notice a failure: the branch is kept below as the
  source has it (status \<open>0\<close>), and the run goes on after a failed read with the buffer
  as the read has left it. It ends in the fault \<open>Indeterminate\<close> where it then uses
  bytes of a buffer that nothing has filled.
\<close>

text \<open>\<open>None\<close>: the function returns false. \<open>Some nd\<close>: it returns true and \<open>*node = nd\<close>.\<close>

definition fs_load_inode :: "FileSystem \<Rightarrow> nat \<Rightarrow> fault + Inode option" where
  "fs_load_inode fs inode_number =
     (let inode_block_number = 1 + inode_number div INODES_PER_BLOCK in
      case disk_read (disk fs) inode_block_number of
        r \<Rightarrow>
          if read_status r = 0 then Inr None
          else (case r of
                  None \<Rightarrow> Inl Indeterminate
                | Some block \<Rightarrow>
                    let node = get_inode block (inode_number mod INODES_PER_BLOCK)
                    in if valid node \<noteq> 0 then Inr (Some node) else Inr None))"

text \<open>
  \<^verbatim>\<open>fs_save_inode\<close> after a failed read: the test \<^verbatim>\<open>!disk_read(...)\<close> does not notice it,
  the slot is copied into the buffer that the read has not filled, and
  \<^verbatim>\<open>disk_write\<close> of the same block fails as the read has (same sanity check) before it
  looks at the buffer; \<^verbatim>\<open>!disk_write(...)\<close> does not notice that either, and the
  function returns true with the disk as it was.
\<close>

definition fs_save_inode :: "FileSystem \<Rightarrow> nat \<Rightarrow> Inode \<Rightarrow> fault + (FileSystem \<times> bool)" where
  "fs_save_inode fs inode_number node =
     (let inode_block_number = 1 + inode_number div INODES_PER_BLOCK in
      case disk_read (disk fs) inode_block_number of
        r \<Rightarrow>
          if read_status r = 0 then Inr (fs, False)
          else (case r of
                  None \<Rightarrow> Inr (fs, True)
                | Some block \<Rightarrow>
                    (case disk_write (disk fs) inode_block_number
                            (set_inode block (inode_number mod INODES_PER_BLOCK) node) of
                       (st', d') \<Rightarrow>
                         if st' = 0 then Inr (fs\<lparr>disk := d'\<rparr>, False)
                         else Inr (fs\<lparr>disk := d'\<rparr>, True))))"

subsection \<open>fs\_format\<close>

text \<open>
  \<^verbatim>\<open>for (size_t i = 0; i < inodes_size; ++i)
      if (disk_write(disk, i + 1, data) == DISK_FAILURE) return false;\<close>
  The result is the disk and whether the loop ran to its end.
\<close>

function format_clear :: "Disk option \<Rightarrow> Block \<Rightarrow> nat \<Rightarrow> nat \<Rightarrow> Disk option \<times> bool" where
  "format_clear dsk data i n =
     (if i < n then
        (case disk_write dsk (i + 1) data of
           (st, d') \<Rightarrow> if st = DISK_FAILURE then (d', False) else format_clear d' data (i + 1) n)
      else (dsk, True))"
  by pat_completeness auto
termination
  by (relation "measure (\<lambda>(dsk, data, i, n). n - i)") auto

declare format_clear.simps [simp del]

text \<open>
  The superblock is written through \<^verbatim>\<open>uint32_t *ptr = (uint32_t *)data\<close> into the
  buffer that \<^verbatim>\<open>calloc\<close> had zeroed. The disk is passed by pointer: the result holds
  the disk after the call and the value returned.
\<close>

definition fs_format :: "FileSystem \<Rightarrow> Disk option \<Rightarrow> fault + (Disk option \<times> bool)" where
  "fs_format fs dsk =
     (if disk fs = None \<and> dsk \<noteq> None then
        (let inodes_size = ((blocks (the dsk) + 9) mod U64) div 10 in
         if read_status (disk_read dsk 0) = DISK_FAILURE then Inr (dsk, False)
         else
           (case format_clear dsk zero_block 0 inodes_size of
              (d1, ok) \<Rightarrow>
                if \<not> ok then Inr (d1, False)
                else
                  (let data = set32 (set32 (set32 (set32 zero_block 0 MAGIC_NUMBER)
                                1 (blocks (the dsk))) 2 inodes_size)
                                3 ((inodes_size * INODES_PER_BLOCK) mod U64)
                   in case disk_write d1 0 data of
                        (st, d2) \<Rightarrow>
                          if st = DISK_FAILURE then Inl ExitFailure else Inr (d2, True))))
      else Inr (dsk, False))"

subsection \<open>fs\_mount and the free block bitmap\<close>

text \<open>\<^verbatim>\<open>for (i = 0; i <= fs->meta_data.inode_blocks; ++i) fs->free_blocks[i] = false;\<close>\<close>

function init_used :: "FileSystem \<Rightarrow> nat \<Rightarrow> nat \<Rightarrow> fault + (FileSystem \<times> nat)" where
  "init_used fs i n =
     (if i \<le> n then
        (case bitmap_set fs i False of
           Inl f \<Rightarrow> Inl f
         | Inr fs' \<Rightarrow> init_used fs' (i + 1) n)
      else Inr (fs, i))"
  by pat_completeness auto
termination
  by (relation "measure (\<lambda>(fs, i, n). Suc n - i)") auto

declare init_used.simps [simp del]

text \<open>\<^verbatim>\<open>while (i < fs->meta_data.blocks) fs->free_blocks[i++] = true;\<close>\<close>

function init_free :: "FileSystem \<Rightarrow> nat \<Rightarrow> nat \<Rightarrow> fault + FileSystem" where
  "init_free fs i n =
     (if i < n then
        (case bitmap_set fs i True of
           Inl f \<Rightarrow> Inl f
         | Inr fs' \<Rightarrow> init_free fs' (i + 1) n)
      else Inr fs)"
  by pat_completeness auto
termination
  by (relation "measure (\<lambda>(fs, i, n). n - i)") auto

declare init_free.simps [simp del]

text \<open>
  \<^verbatim>\<open>for (size_t k = 0; k < N && ptr[k]; ++k) fs->free_blocks[ptr[k]] = false;\<close>
  for the array \<open>ptr\<close> of \<open>N\<close> pointers: \<^verbatim>\<open>pi->direct\<close> with \<open>POINTERS_PER_INODE\<close>, and
  \<^verbatim>\<open>indirect_block.pointers\<close> with \<open>POINTERS_PER_BLOCK\<close>.
\<close>

function mark_used :: "FileSystem \<Rightarrow> (nat \<Rightarrow> nat) \<Rightarrow> nat \<Rightarrow> nat \<Rightarrow> fault + FileSystem" where
  "mark_used fs ptr n k =
     (if k < n \<and> ptr k \<noteq> 0 then
        (case bitmap_set fs (ptr k) False of
           Inl f \<Rightarrow> Inl f
         | Inr fs' \<Rightarrow> mark_used fs' ptr n (k + 1))
      else Inr fs)"
  by pat_completeness auto
termination
  by (relation "measure (\<lambda>(fs, ptr, n, k). n - k)") auto

declare mark_used.simps [simp del]

text \<open>The body of the loop over the slots of one inode block, for the inode \<open>pi\<close>.\<close>

definition mark_inode :: "FileSystem \<Rightarrow> Inode \<Rightarrow> fault + FileSystem" where
  "mark_inode fs pi =
     (if valid pi \<noteq> 0 then
        (case mark_used fs (\<lambda>k. direct pi ! k) POINTERS_PER_INODE 0 of
           Inl f \<Rightarrow> Inl f
         | Inr fs1 \<Rightarrow>
             if indirect pi \<noteq> 0 then
               (case bitmap_set fs1 (indirect pi) False of
                  Inl f \<Rightarrow> Inl f
                | Inr fs2 \<Rightarrow>
                    (case disk_read (disk fs2) (indirect pi) of
                       None \<Rightarrow> Inl ExitFailure
                     | Some indirect_block \<Rightarrow>
                         mark_used fs2 (get32 indirect_block) POINTERS_PER_BLOCK 0))
             else Inr fs1)
      else Inr fs)"

text \<open>\<^verbatim>\<open>for (size_t j = 0; j < INODES_PER_BLOCK; ++j)\<close> over the inode block \<open>block\<close>.\<close>

function mark_slots :: "FileSystem \<Rightarrow> Block \<Rightarrow> nat \<Rightarrow> fault + FileSystem" where
  "mark_slots fs block j =
     (if j < INODES_PER_BLOCK then
        (case mark_inode fs (get_inode block j) of
           Inl f \<Rightarrow> Inl f
         | Inr fs' \<Rightarrow> mark_slots fs' block (j + 1))
      else Inr fs)"
  by pat_completeness auto
termination
  by (relation "measure (\<lambda>(fs, block, j). INODES_PER_BLOCK - j)") auto

declare mark_slots.simps [simp del]

text \<open>
  \<^verbatim>\<open>for (size_t i = 0; i < fs->meta_data.inode_blocks; ++i)\<close>; the bound, which the
  body does not change, is the argument \<open>n\<close>.
\<close>

function mark_blocks :: "FileSystem \<Rightarrow> nat \<Rightarrow> nat \<Rightarrow> fault + FileSystem" where
  "mark_blocks fs n i =
     (if i < n then
        (case disk_read (disk fs) (i + 1) of
           None \<Rightarrow> Inl ExitFailure
         | Some block \<Rightarrow>
             (case mark_slots fs block 0 of
                Inl f \<Rightarrow> Inl f
              | Inr fs' \<Rightarrow> mark_blocks fs' n (i + 1)))
      else Inr fs)"
  by pat_completeness auto
termination
  by (relation "measure (\<lambda>(fs, n, i). n - i)") auto

declare mark_blocks.simps [simp del]

text \<open>
  \<^verbatim>\<open>malloc\<close> returns an array of \<^verbatim>\<open>fs->disk->blocks\<close> entries of unspecified content:
  \<open>junk i\<close> is what entry \<open>i\<close> holds before the function writes to it.
\<close>

definition fs_initialize_free_block_bitmap ::
    "(nat \<Rightarrow> bool) \<Rightarrow> FileSystem \<Rightarrow> fault + FileSystem" where
  "fs_initialize_free_block_bitmap junk fs =
     (case disk_blocks fs of
        Inl f \<Rightarrow> Inl f
      | Inr n \<Rightarrow>
          (case init_used (fs\<lparr>free_blocks := Some (map junk [0..<n])\<rparr>) 0
                  (inode_blocks (meta_data fs)) of
             Inl f \<Rightarrow> Inl f
           | Inr (fs1, i) \<Rightarrow>
               (case init_free fs1 i (sb_blocks (meta_data fs)) of
                  Inl f \<Rightarrow> Inl f
                | Inr fs2 \<Rightarrow> mark_blocks fs2 (inode_blocks (meta_data fs2)) 0)))"

text \<open>
  The products with \<open>INODES_PER_BLOCK\<close> and the sum \<open>blocks + 9\<close> are 32-bit. The
  result holds the file system structure after the call and the value returned.
\<close>

definition fs_mount ::
    "(nat \<Rightarrow> bool) \<Rightarrow> FileSystem \<Rightarrow> Disk option \<Rightarrow> fault + (FileSystem \<times> bool)" where
  "fs_mount junk fs dsk =
     (if dsk \<noteq> None \<and> disk fs = None then
        (let fs1 = fs\<lparr>disk := dsk\<rparr> in
         case disk_read dsk 0 of
           None \<Rightarrow> Inr (fs1, False)
         | Some block \<Rightarrow>
             (let fs2 = fs1\<lparr>meta_data := get_super block\<rparr> in
              if magic_number (meta_data fs2) \<noteq> MAGIC_NUMBER then Inr (fs2, False)
              else if (inode_blocks (meta_data fs2) * INODES_PER_BLOCK) mod U32
                        \<noteq> inodes (meta_data fs2) then Inr (fs2, False)
              else if inode_blocks (meta_data fs2)
                        \<noteq> ((sb_blocks (meta_data fs2) + 9) mod U32) div 10
                   then Inr (fs2, False)
              else (case fs_initialize_free_block_bitmap junk fs2 of
                      Inl f \<Rightarrow> Inl f
                    | Inr fs3 \<Rightarrow> Inr (fs3, True))))
      else Inr (fs, False))"

definition fs_unmount :: "FileSystem \<Rightarrow> FileSystem" where
  "fs_unmount fs = fs\<lparr>disk := None, free_blocks := None\<rparr>"

subsection \<open>fs\_create, fs\_remove, fs\_stat\<close>

text \<open>
  \<^verbatim>\<open>for (size_t j = 0; j < INODES_PER_BLOCK; ++j) if (!block.inodes[j].valid) ...\<close>:
  the first slot of the block whose \<open>valid\<close> field is 0.
\<close>

function find_invalid :: "Block \<Rightarrow> nat \<Rightarrow> nat option" where
  "find_invalid block j =
     (if j < INODES_PER_BLOCK then
        (if get32 block (8 * j) = 0 then Some j else find_invalid block (j + 1))
      else None)"
  by pat_completeness auto
termination
  by (relation "measure (\<lambda>(block, j). INODES_PER_BLOCK - j)") auto

declare find_invalid.simps [simp del]

text \<open>A \<^verbatim>\<open>size_t\<close> returned as \<^verbatim>\<open>ssize_t\<close>.\<close>

definition to_ssize :: "nat \<Rightarrow> int" where
  "to_ssize x = (if x < 2 ^ 63 then int x else int x - 2 ^ 64)"

text \<open>The loop over the inode blocks, from block \<open>i\<close> on; \<open>n\<close> is \<^verbatim>\<open>inode_blocks\<close>.\<close>

function create_from :: "FileSystem \<Rightarrow> nat \<Rightarrow> nat \<Rightarrow> FileSystem \<times> int" where
  "create_from fs n i =
     (if i < n then
        (case disk_read (disk fs) (i + 1) of
           None \<Rightarrow> (fs, - 1)
         | Some block \<Rightarrow>
             (case find_invalid block 0 of
                None \<Rightarrow> create_from fs n (i + 1)
              | Some j \<Rightarrow>
                  (case disk_write (disk fs) (i + 1) (set32 block (8 * j) 1) of
                     (st', d') \<Rightarrow>
                       if st' = DISK_FAILURE then (fs\<lparr>disk := d'\<rparr>, - 1)
                       else (fs\<lparr>disk := d'\<rparr>,
                             to_ssize ((i * INODES_PER_BLOCK + j) mod U64)))))
      else (fs, - 1))"
  by pat_completeness auto
termination
  by (relation "measure (\<lambda>(fs, n, i). n - i)") auto

declare create_from.simps [simp del]

definition fs_create :: "FileSystem \<Rightarrow> FileSystem \<times> int" where
  "fs_create fs = create_from fs (inode_blocks (meta_data fs)) 0"




definition fs_stat :: "FileSystem \<Rightarrow> nat \<Rightarrow> fault + int" where
  "fs_stat fs inode_number =
     (case fs_load_inode fs inode_number of
        Inl f \<Rightarrow> Inl f
      | Inr None \<Rightarrow> Inr (- 1)
      | Inr (Some inode) \<Rightarrow> Inr (int (isize inode)))"

subsection \<open>fs\_expand\_file\<close>

text \<open>
  \<^verbatim>\<open>while (idx < POINTERS_PER_INODE && dif && (free_block_idx = fs_allocate_free_block(fs)) != -1)
  { node->direct[idx++] = free_block_idx; --dif; }\<close>
  The allocator is called only when the first two tests hold; the block number is
  stored into a 32-bit field.
\<close>

function expand_direct ::
    "FileSystem \<Rightarrow> Inode \<Rightarrow> nat \<Rightarrow> nat \<Rightarrow> fault + (FileSystem \<times> Inode \<times> nat \<times> nat)" where
  "expand_direct fs node idx dif =
     (if idx < POINTERS_PER_INODE \<and> dif \<noteq> 0 then
        (case fs_allocate_free_block fs of
           Inl f \<Rightarrow> Inl f
         | Inr (fs', free_block_idx) \<Rightarrow>
             if free_block_idx \<noteq> - 1 then
               expand_direct fs'
                 (node\<lparr>direct := (direct node)[idx := nat free_block_idx mod U32]\<rparr>)
                 (idx + 1) (dif - 1)
             else Inr (fs', node, idx, dif))
      else Inr (fs, node, idx, dif))"
  by pat_completeness auto
termination
  by (relation "measure (\<lambda>(fs, node, idx, dif). POINTERS_PER_INODE - idx)") auto

declare expand_direct.simps [simp del]

text \<open>
  \<^verbatim>\<open>while (idx < POINTERS_PER_BLOCK && dif && (free_block_idx = fs_allocate_free_block(fs)) != -1)
  { indirect_block.pointers[idx++] = free_block_idx; --dif; }\<close>
\<close>

function expand_indirect ::
    "FileSystem \<Rightarrow> Block \<Rightarrow> nat \<Rightarrow> nat \<Rightarrow> fault + (FileSystem \<times> Block \<times> nat \<times> nat)" where
  "expand_indirect fs indirect_block idx dif =
     (if idx < POINTERS_PER_BLOCK \<and> dif \<noteq> 0 then
        (case fs_allocate_free_block fs of
           Inl f \<Rightarrow> Inl f
         | Inr (fs', free_block_idx) \<Rightarrow>
             if free_block_idx \<noteq> - 1 then
               expand_indirect fs' (set32 indirect_block idx (nat free_block_idx))
                 (idx + 1) (dif - 1)
             else Inr (fs', indirect_block, idx, dif))
      else Inr (fs, indirect_block, idx, dif))"
  by pat_completeness auto
termination
  by (relation "measure (\<lambda>(fs, blk, idx, dif). POINTERS_PER_BLOCK - idx)") auto

declare expand_indirect.simps [simp del]

text \<open>
  The part of \<^verbatim>\<open>fs_expand_file\<close> under \<^verbatim>\<open>if (idx >= POINTERS_PER_INODE)\<close>; the result
  holds the file system, the inode and \<open>dif\<close>. A new indirect block is cleared by
  \<^verbatim>\<open>memset\<close> whatever the read has left in the buffer.
\<close>

definition expand_indirect_part ::
    "FileSystem \<Rightarrow> Inode \<Rightarrow> nat \<Rightarrow> nat \<Rightarrow> fault + (FileSystem \<times> Inode \<times> nat)" where
  "expand_indirect_part fs node idx0 dif =
     (if idx0 \<ge> POINTERS_PER_INODE then
        (let idx = idx0 - POINTERS_PER_INODE;
             pre_indirect = (indirect node \<noteq> 0)
         in case (if indirect node = 0 then
                    (case fs_allocate_free_block fs of
                       Inl f \<Rightarrow> Inl f
                     | Inr (fs', free_block_idx) \<Rightarrow>
                         if free_block_idx \<noteq> - 1
                         then Inr (fs', node\<lparr>indirect := nat free_block_idx mod U32\<rparr>)
                         else Inr (fs', node))
                  else Inr (fs, node)) of
              Inl f \<Rightarrow> Inl f
            | Inr (fs1, node1) \<Rightarrow>
                if indirect node1 \<noteq> 0 then
                  (case disk_read (disk fs1) (indirect node1) of
                     r \<Rightarrow>
                       if read_status r = 0 then Inl ExitFailure
                       else
                         (case (if \<not> pre_indirect then Some zero_block else r) of
                            None \<Rightarrow> Inl Indeterminate
                          | Some indirect_block \<Rightarrow>
                              (case expand_indirect fs1 indirect_block idx dif of
                                 Inl f \<Rightarrow> Inl f
                               | Inr (fs2, indirect_block', idx', dif') \<Rightarrow>
                                   if idx' = 0 \<and> \<not> pre_indirect then
                                     (case fs_release_free_block fs2 (indirect node1) of
                                        Inl f \<Rightarrow> Inl f
                                      | Inr fs3 \<Rightarrow> Inr (fs3, node1\<lparr>indirect := 0\<rparr>, dif'))
                                   else
                                     (case disk_write (disk fs2) (indirect node1)
                                             indirect_block' of
                                        (st, d') \<Rightarrow>
                                          if st = 0 then Inl ExitFailure
                                          else Inr (fs2\<lparr>disk := d'\<rparr>, node1, dif')))))
                else Inr (fs1, node1, dif))
      else Inr (fs, node, dif))"

text \<open>
  \<^verbatim>\<open>UPPER_ROUND(node->size, BLOCK_SIZE)\<close> is 32-bit and
  \<^verbatim>\<open>UPPER_ROUND(new_size, BLOCK_SIZE)\<close> 64-bit arithmetic; the new size is stored
  into the 32-bit field \<^verbatim>\<open>size\<close>.
\<close>

definition fs_expand_file ::
    "FileSystem \<Rightarrow> Inode \<Rightarrow> nat \<Rightarrow> fault + (FileSystem \<times> Inode)" where
  "fs_expand_file fs node new_size =
     (let old_blocks = UPPER_ROUND U32 (isize node) BLOCK_SIZE;
          new_blocks = UPPER_ROUND U64 new_size BLOCK_SIZE
      in if old_blocks < new_blocks then
           (let dif = new_blocks - old_blocks;
                idx = UPPER_ROUND U32 (isize node) BLOCK_SIZE
            in case expand_direct fs node idx dif of
                 Inl f \<Rightarrow> Inl f
               | Inr (fs1, node1, idx1, dif1) \<Rightarrow>
                   (case expand_indirect_part fs1 node1 idx1 dif1 of
                      Inl f \<Rightarrow> Inl f
                    | Inr (fs2, node2, dif2) \<Rightarrow>
                        Inr (fs2, node2\<lparr>isize :=
                               (if dif2 \<noteq> 0 then ((new_blocks - dif2) * BLOCK_SIZE) mod U64
                                else new_size) mod U32\<rparr>)))
         else Inr (fs, node\<lparr>isize := max (isize node) new_size mod U32\<rparr>))"

subsection \<open>fs\_read\<close>

text \<open>
  The caller's buffer \<^verbatim>\<open>data\<close> is the function from its indices to its bytes.
  \<^verbatim>\<open>memcpy(data + dst, block.data + off, sz)\<close> reads \<open>sz\<close> bytes of the block from
  \<open>off\<close> on; reading past the end of the block is a fault.
\<close>

definition memcpy_from_block ::
    "(nat \<Rightarrow> byte) \<Rightarrow> nat \<Rightarrow> Block \<Rightarrow> nat \<Rightarrow> nat \<Rightarrow> fault + (nat \<Rightarrow> byte)" where
  "memcpy_from_block data dst block off sz =
     (if off + sz \<le> BLOCK_SIZE
      then Inr (\<lambda>k. if dst \<le> k \<and> k < dst + sz then block (off + (k - dst)) else data k)
      else Inl OutOfBounds)"

text \<open>
  The loops of \<^verbatim>\<open>fs_read\<close>. Both read into the local buffer \<^verbatim>\<open>block\<close>, which is the
  argument \<open>block\<close> below: \<open>None\<close> as long as no read has filled it. A failed read is
  not noticed by \<^verbatim>\<open>!disk_read(...)\<close> and leaves the buffer as it was, so the bytes
  copied are those of the block read before; when there is none the bytes are
  indeterminate. The result is \<open>(ret, data, i, offset, bytes_read, block)\<close>:
  \<open>ret = Some v\<close> when the function has returned \<open>v\<close> from inside the loop. \<open>offset\<close>
  is below \<open>BLOCK_SIZE\<close> throughout.
\<close>

function read_direct ::
    "FileSystem \<Rightarrow> Inode \<Rightarrow> (nat \<Rightarrow> byte) \<Rightarrow> nat \<Rightarrow> nat \<Rightarrow> nat \<Rightarrow> nat \<Rightarrow> Block option
      \<Rightarrow> fault + (int option \<times> (nat \<Rightarrow> byte) \<times> nat \<times> nat \<times> nat \<times> Block option)" where
  "read_direct fs inode data len i offset bytes_read block =
     (if i < POINTERS_PER_INODE \<and> direct inode ! i \<noteq> 0 \<and> bytes_read < len then
        (case disk_read (disk fs) (direct inode ! i) of
           r \<Rightarrow>
             if read_status r = 0 then Inr (Some (- 1), data, i, offset, bytes_read, block)
             else
               (case (case r of None \<Rightarrow> block | Some b \<Rightarrow> Some b) of
                  None \<Rightarrow> Inl Indeterminate
                | Some block' \<Rightarrow>
                    (let sz = min (BLOCK_SIZE - offset) (len - bytes_read) in
                     case memcpy_from_block data bytes_read block' (offset mod BLOCK_SIZE) sz of
                       Inl f \<Rightarrow> Inl f
                     | Inr data' \<Rightarrow>
                         read_direct fs inode data' len (i + 1) 0 (bytes_read + sz)
                           (Some block'))))
      else Inr (None, data, i, offset, bytes_read, block))"
  by pat_completeness auto
termination
  by (relation "measure (\<lambda>(fs, inode, data, len, i, offset, bytes_read, block).
        POINTERS_PER_INODE - i)") auto

declare read_direct.simps [simp del]

function read_indirect ::
    "FileSystem \<Rightarrow> Block \<Rightarrow> (nat \<Rightarrow> byte) \<Rightarrow> nat \<Rightarrow> nat \<Rightarrow> nat \<Rightarrow> nat \<Rightarrow> Block option
      \<Rightarrow> fault + (int option \<times> (nat \<Rightarrow> byte) \<times> nat \<times> nat \<times> nat \<times> Block option)" where
  "read_indirect fs indirect_block data len i offset bytes_read block =
     (if i < POINTERS_PER_BLOCK \<and> get32 indirect_block i \<noteq> 0 \<and> bytes_read < len then
        (case disk_read (disk fs) (get32 indirect_block i) of
           r \<Rightarrow>
             if read_status r = 0 then Inr (Some (- 1), data, i, offset, bytes_read, block)
             else
               (case (case r of None \<Rightarrow> block | Some b \<Rightarrow> Some b) of
                  None \<Rightarrow> Inl Indeterminate
                | Some block' \<Rightarrow>
                    (let sz = min BLOCK_SIZE (len - bytes_read) in
                     case memcpy_from_block data bytes_read block' offset sz of
                       Inl f \<Rightarrow> Inl f
                     | Inr data' \<Rightarrow>
                         read_indirect fs indirect_block data' len (i + 1) 0
                           (bytes_read + sz) (Some block'))))
      else Inr (None, data, i, offset, bytes_read, block))"
  by pat_completeness auto
termination
  by (relation "measure (\<lambda>(fs, blk, data, len, i, offset, bytes_read, block).
        POINTERS_PER_BLOCK - i)") auto

declare read_indirect.simps [simp del]

text \<open>
  \<^verbatim>\<open>inode.size - offset\<close> and \<^verbatim>\<open>i -= POINTERS_PER_INODE\<close> are \<^verbatim>\<open>size_t\<close> subtractions and
  wrap around. The buffer \<^verbatim>\<open>block\<close> is not initialised; the buffer
  \<^verbatim>\<open>indirect_block\<close> is a second one, which only the read of the indirect block can
  fill. The result holds the value returned and the caller's buffer.
\<close>

definition fs_read ::
    "FileSystem \<Rightarrow> nat \<Rightarrow> (nat \<Rightarrow> byte) \<Rightarrow> nat \<Rightarrow> nat \<Rightarrow> fault + (int \<times> (nat \<Rightarrow> byte))" where
  "fs_read fs inode_number data len0 offset0 =
     (case fs_load_inode fs inode_number of
        Inl f \<Rightarrow> Inl f
      | Inr None \<Rightarrow> Inr (- 1, data)
      | Inr (Some inode) \<Rightarrow>
          (let len = min len0 ((isize inode + U64 - offset0) mod U64);
               i = offset0 div BLOCK_SIZE;
               offset = offset0 mod BLOCK_SIZE
           in case read_direct fs inode data len i offset 0 None of
                Inl f \<Rightarrow> Inl f
              | Inr (Some v, data1, i1, offset1, bytes_read1, block1) \<Rightarrow> Inr (v, data1)
              | Inr (None, data1, i1, offset1, bytes_read1, block1) \<Rightarrow>
                  (case (if bytes_read1 < len \<and> indirect inode \<noteq> 0 then
                           (case disk_read (disk fs) (indirect inode) of
                              r \<Rightarrow>
                                if read_status r = 0
                                then Inr (Some (- 1), data1, i1, offset1, bytes_read1, block1)
                                else
                                  (case r of
                                     None \<Rightarrow> Inl Indeterminate
                                   | Some indirect_block \<Rightarrow>
                                       read_indirect fs indirect_block data1 len
                                         ((i1 + U64 - POINTERS_PER_INODE) mod U64)
                                         offset1 bytes_read1 block1))
                         else Inr (None, data1, i1, offset1, bytes_read1, block1)) of
                     Inl f \<Rightarrow> Inl f
                   | Inr (Some v, data2, i2, offset2, bytes_read2, block2) \<Rightarrow> Inr (v, data2)
                   | Inr (None, data2, i2, offset2, bytes_read2, block2) \<Rightarrow>
                       if bytes_read2 = len then Inr (to_ssize bytes_read2, data2)
                       else Inl AssertionFailure)))"

subsection \<open>fs\_write\<close>

text \<open>
  \<^verbatim>\<open>memcpy(block.data + off, data + src, sz)\<close> writes \<open>sz\<close> bytes of the block from
  \<open>off\<close> on; writing past the end of the block is a fault.
\<close>

definition memcpy_to_block ::
    "Block \<Rightarrow> nat \<Rightarrow> (nat \<Rightarrow> byte) \<Rightarrow> nat \<Rightarrow> nat \<Rightarrow> fault + Block" where
  "memcpy_to_block block off data src sz =
     (if off + sz \<le> BLOCK_SIZE
      then Inr (\<lambda>k. if off \<le> k \<and> k < off + sz then data (src + (k - off)) else block k)
      else Inl OutOfBounds)"

text \<open>
  The loops of \<^verbatim>\<open>fs_write\<close>, with the result \<open>(ret, fs, i, offset, bytes_write)\<close>. The
  direct loop ignores the status of \<^verbatim>\<open>disk_write\<close>; the indirect loop exits on a
  status \<open>0\<close>, which is never returned.

  A failed read is not noticed by \<^verbatim>\<open>!disk_read(...)\<close>: the bytes are copied into the
  buffer as the read has left it and are counted, and \<^verbatim>\<open>disk_write\<close> of the same
  block fails as the read has (same sanity check) before it looks at the buffer, so
  the disk stays as it was whatever the buffer holds. This is the branch \<open>None\<close>
  below; only the bounds of the \<^verbatim>\<open>memcpy\<close> are left to test there.
\<close>

function write_direct ::
    "FileSystem \<Rightarrow> Inode \<Rightarrow> (nat \<Rightarrow> byte) \<Rightarrow> nat \<Rightarrow> nat \<Rightarrow> nat \<Rightarrow> nat
      \<Rightarrow> fault + (int option \<times> FileSystem \<times> nat \<times> nat \<times> nat)" where
  "write_direct fs inode data len i offset bytes_write =
     (if i < POINTERS_PER_INODE \<and> direct inode ! i \<noteq> 0 \<and> bytes_write < len then
        (case disk_read (disk fs) (direct inode ! i) of
           r \<Rightarrow>
             if read_status r = 0 then Inr (Some (- 1), fs, i, offset, bytes_write)
             else
               (let sz = min (BLOCK_SIZE - offset) (len - bytes_write) in
                case r of
                  None \<Rightarrow>
                    if offset + sz \<le> BLOCK_SIZE
                    then write_direct fs inode data len (i + 1) 0 (bytes_write + sz)
                    else Inl OutOfBounds
                | Some block \<Rightarrow>
                    (case memcpy_to_block block offset data bytes_write sz of
                       Inl f \<Rightarrow> Inl f
                     | Inr block' \<Rightarrow>
                         (case disk_write (disk fs) (direct inode ! i) block' of
                            (st, d') \<Rightarrow>
                              write_direct (fs\<lparr>disk := d'\<rparr>) inode data len (i + 1) 0
                                (bytes_write + sz)))))
      else Inr (None, fs, i, offset, bytes_write))"
  by pat_completeness auto
termination
  by (relation "measure (\<lambda>(fs, inode, data, len, i, offset, bytes_write).
        POINTERS_PER_INODE - i)") auto

declare write_direct.simps [simp del]

function write_indirect ::
    "FileSystem \<Rightarrow> Block \<Rightarrow> (nat \<Rightarrow> byte) \<Rightarrow> nat \<Rightarrow> nat \<Rightarrow> nat \<Rightarrow> nat
      \<Rightarrow> fault + (FileSystem \<times> nat \<times> nat \<times> nat)" where
  "write_indirect fs indirect_block data len i offset bytes_write =
     (if i < POINTERS_PER_BLOCK \<and> get32 indirect_block i \<noteq> 0 \<and> bytes_write < len then
        (case disk_read (disk fs) (get32 indirect_block i) of
           r \<Rightarrow>
             if read_status r = 0 then Inl ExitFailure
             else
               (let sz = min (BLOCK_SIZE - offset) (len - bytes_write) in
                case r of
                  None \<Rightarrow>
                    if offset + sz \<le> BLOCK_SIZE
                    then write_indirect fs indirect_block data len (i + 1) 0 (bytes_write + sz)
                    else Inl OutOfBounds
                | Some block \<Rightarrow>
                    (case memcpy_to_block block offset data bytes_write sz of
                       Inl f \<Rightarrow> Inl f
                     | Inr block' \<Rightarrow>
                         (case disk_write (disk fs) (get32 indirect_block i) block' of
                            (st, d') \<Rightarrow>
                              if st = 0 then Inl ExitFailure
                              else write_indirect (fs\<lparr>disk := d'\<rparr>) indirect_block data len
                                     (i + 1) 0 (bytes_write + sz)))))
      else Inr (fs, i, offset, bytes_write))"
  by pat_completeness auto
termination
  by (relation "measure (\<lambda>(fs, blk, data, len, i, offset, bytes_write).
        POINTERS_PER_BLOCK - i)") auto

declare write_indirect.simps [simp del]

text \<open>
  \<^verbatim>\<open>offset + length\<close> is a \<^verbatim>\<open>size_t\<close> sum. The value of \<^verbatim>\<open>fs_save_inode\<close> is not looked
  at. The result holds the file system after the call and the value returned.
\<close>

definition fs_write ::
    "FileSystem \<Rightarrow> nat \<Rightarrow> (nat \<Rightarrow> byte) \<Rightarrow> nat \<Rightarrow> nat \<Rightarrow> fault + (FileSystem \<times> int)" where
  "fs_write fs inode_number data len offset0 =
     (case fs_load_inode fs inode_number of
        Inl f \<Rightarrow> Inl f
      | Inr None \<Rightarrow> Inr (fs, - 1)
      | Inr (Some inode0) \<Rightarrow>
          (case fs_expand_file fs inode0 ((offset0 + len) mod U64) of
             Inl f \<Rightarrow> Inl f
           | Inr (fs1, inode) \<Rightarrow>
               (let i = offset0 div BLOCK_SIZE;
                    offset = offset0 mod BLOCK_SIZE
                in case write_direct fs1 inode data len i offset 0 of
                     Inl f \<Rightarrow> Inl f
                   | Inr (Some v, fs2, i2, offset2, bytes_write2) \<Rightarrow> Inr (fs2, v)
                   | Inr (None, fs2, i2, offset2, bytes_write2) \<Rightarrow>
                       (case (if bytes_write2 < len \<and> indirect inode \<noteq> 0 then
                                (case disk_read (disk fs2) (indirect inode) of
                                   r \<Rightarrow>
                                     if read_status r = 0 then Inl ExitFailure
                                     else
                                       (case r of
                                          None \<Rightarrow> Inl Indeterminate
                                        | Some indirect_block \<Rightarrow>
                                            write_indirect fs2 indirect_block data len
                                              ((i2 + U64 - POINTERS_PER_INODE) mod U64)
                                              offset2 bytes_write2))
                              else Inr (fs2, i2, offset2, bytes_write2)) of
                          Inl f \<Rightarrow> Inl f
                        | Inr (fs3, i3, offset3, bytes_write3) \<Rightarrow>
                            (case fs_save_inode fs3 inode_number inode of
                               Inl f \<Rightarrow> Inl f
                             | Inr (fs4, ok) \<Rightarrow> Inr (fs4, to_ssize bytes_write3))))))"

subsection \<open>Mounted file systems\<close>

text \<open>
  What a successful \<^verbatim>\<open>fs_mount\<close> leaves behind, and what no other function of fs.c
  changes: an open disk, a bitmap with one entry for each block of the disk, and a
  copy of a superblock that has passed the three tests and whose inode table and
  block count fit the disk.
\<close>

definition mounted :: "FileSystem \<Rightarrow> bool" where
  "mounted fs =
     (case disk fs of
        None \<Rightarrow> False
      | Some d \<Rightarrow>
          (case free_blocks fs of
             None \<Rightarrow> False
           | Some bm \<Rightarrow>
               0 \<le> fd d \<and> length bm = blocks d
               \<and> magic_number (meta_data fs) = MAGIC_NUMBER
               \<and> (inode_blocks (meta_data fs) * INODES_PER_BLOCK) mod U32 = inodes (meta_data fs)
               \<and> inode_blocks (meta_data fs) = ((sb_blocks (meta_data fs) + 9) mod U32) div 10
               \<and> inode_blocks (meta_data fs) < blocks d
               \<and> sb_blocks (meta_data fs) \<le> blocks d))"

subsection \<open>The blocks that valid inodes reach\<close>

text \<open>
  In a pointer array 0 means that there is no block here and none after this index:
  the pointers of the array are its entries before the first 0.
\<close>

definition pointer_list :: "nat list \<Rightarrow> nat list" where
  "pointer_list ps = takeWhile (\<lambda>p. p \<noteq> 0) ps"

text \<open>
  The blocks an inode reaches on the disk \<open>d\<close>: its direct pointers and, when it has
  an indirect block, that block and the pointers stored in it.
\<close>

definition inode_block_list :: "Disk \<Rightarrow> Inode \<Rightarrow> nat list" where
  "inode_block_list d nd =
     pointer_list (direct nd) @
     (if indirect nd \<noteq> 0
      then indirect nd #
           pointer_list (map (get32 (contents d (indirect nd))) [0..<POINTERS_PER_BLOCK])
      else [])"

text \<open>
  The blocks reached by the valid inodes of the image on \<open>d\<close>, whose inode table is
  the blocks \<open>1 .. inode_blocks\<close> named by its superblock.
\<close>

definition used_blocks :: "Disk \<Rightarrow> nat list" where
  "used_blocks d =
     concat (map (\<lambda>i. concat (map (\<lambda>j.
         let nd = get_inode (contents d (i + 1)) j
         in if valid nd \<noteq> 0 then inode_block_list d nd else [])
       [0..<INODES_PER_BLOCK]))
     [0..<inode_blocks (get_super (contents d 0))])"

subsection \<open>Auxiliary notions\<close>

text \<open>
  \<open>marks fs fs' S\<close>: \<open>fs'\<close> is \<open>fs\<close> with the bitmap entries of the blocks in \<open>S\<close> set to
  not free.
\<close>

definition marks :: "FileSystem \<Rightarrow> FileSystem \<Rightarrow> nat set \<Rightarrow> bool" where
  "marks fs fs' S =
     (disk fs' = disk fs \<and> meta_data fs' = meta_data fs \<and>
      (case (free_blocks fs, free_blocks fs') of
         (Some bm, Some bm') \<Rightarrow>
           length bm' = length bm \<and> (\<forall>b < length bm. bm' ! b = (bm ! b \<and> b \<notin> S))
       | _ \<Rightarrow> False))"

text \<open>The blocks reached through slot \<open>j\<close> of an inode block.\<close>

definition slot_blocks :: "Disk \<Rightarrow> Block \<Rightarrow> nat \<Rightarrow> nat list" where
  "slot_blocks d block j =
     (let nd = get_inode block j in if valid nd \<noteq> 0 then inode_block_list d nd else [])"

text \<open>The number of free blocks of the data region, where the allocator looks.\<close>

definition free_count :: "FileSystem \<Rightarrow> nat" where
  "free_count fs =
     (case disk fs of
        None \<Rightarrow> 0
      | Some d \<Rightarrow>
          (case free_blocks fs of
             None \<Rightarrow> 0
           | Some bm \<Rightarrow>
               length (filter (\<lambda>i. bm ! i) [inode_blocks (meta_data fs) + 1..<blocks d])))"

text \<open>
  \<open>allocs fs fs' bs\<close>: \<open>fs'\<close> is \<open>fs\<close> after the blocks \<open>bs\<close>, different blocks of the data
  region that were free, have been marked as not free.
\<close>

definition allocs :: "FileSystem \<Rightarrow> FileSystem \<Rightarrow> nat list \<Rightarrow> bool" where
  "allocs fs fs' bs =
     (disk fs' = disk fs \<and> meta_data fs' = meta_data fs \<and> distinct bs \<and>
      (case disk fs of
         None \<Rightarrow> False
       | Some d \<Rightarrow>
           (case (free_blocks fs, free_blocks fs') of
              (Some bm, Some bm') \<Rightarrow>
                length bm = blocks d \<and> length bm' = length bm
                \<and> (\<forall>b \<in> set bs. inode_blocks (meta_data fs) < b \<and> b < blocks d \<and> bm ! b)
                \<and> (\<forall>x < length bm. bm' ! x = (bm ! x \<and> x \<notin> set bs))
            | _ \<Rightarrow> False)))"

text \<open>The array \<open>xs\<close> with the entries from index \<open>i\<close> on replaced by \<open>bs\<close>.\<close>

definition put_list :: "'a list \<Rightarrow> nat \<Rightarrow> 'a list \<Rightarrow> 'a list" where
  "put_list xs i bs = take i xs @ bs @ drop (i + length bs) xs"

subsection \<open>Well-formed inodes\<close>

text \<open>The number of blocks that hold \<open>sz\<close> bytes.\<close>

definition nblocks :: "nat \<Rightarrow> nat" where
  "nblocks sz = (sz + (BLOCK_SIZE - 1)) div BLOCK_SIZE"

text \<open>A block of the data region that the bitmap marks as not free.\<close>

definition block_used :: "FileSystem \<Rightarrow> nat \<Rightarrow> bool" where
  "block_used fs b =
     (case disk fs of
        None \<Rightarrow> False
      | Some d \<Rightarrow>
          (case free_blocks fs of
             None \<Rightarrow> False
           | Some bm \<Rightarrow>
               inode_blocks (meta_data fs) < b \<and> b < blocks d \<and> b < length bm \<and> \<not> bm ! b))"

text \<open>
  A pointer array whose first \<open>m\<close> entries are used blocks of the data region and
  whose other entries are 0.
\<close>

definition ptr_array :: "FileSystem \<Rightarrow> nat list \<Rightarrow> nat \<Rightarrow> bool" where
  "ptr_array fs xs m =
     (m \<le> length xs \<and>
      (\<forall>k \<in> {0..<length xs}. if k < m then block_used fs (xs ! k) else xs ! k = 0))"

text \<open>
  An inode as the file engine keeps it: it has exactly the blocks that its size
  needs, in zero-terminated pointer arrays (invariants 3 and 4 of the data model,
  the latter with equality), its blocks lie in the data region (invariant 5) and are
  marked as not free (invariant 2), and no block occurs twice.
\<close>

definition wf_inode :: "FileSystem \<Rightarrow> Inode \<Rightarrow> bool" where
  "wf_inode fs nd =
     (case disk fs of
        None \<Rightarrow> False
      | Some d \<Rightarrow>
          length (direct nd) = POINTERS_PER_INODE
          \<and> nblocks (isize nd) \<le> POINTERS_PER_INODE + POINTERS_PER_BLOCK
          \<and> ptr_array fs (direct nd) (min (nblocks (isize nd)) POINTERS_PER_INODE)
          \<and> (if POINTERS_PER_INODE < nblocks (isize nd)
              then block_used fs (indirect nd)
                   \<and> ptr_array fs (map (get32 (contents d (indirect nd))) [0..<POINTERS_PER_BLOCK])
                       (nblocks (isize nd) - POINTERS_PER_INODE)
              else indirect nd = 0)
          \<and> distinct (inode_block_list d nd))"

text \<open>
  What \<^verbatim>\<open>fs_expand_file\<close> achieves on a well-formed inode: the inode stays well-formed,
  it gains blocks up to the number the new size needs, each of them (and a new
  indirect block) taken from the free blocks, the size is the new size when all of
  them were found and the bytes of the blocks otherwise, and the expansion falls
  short only when the free blocks, or the pointers of the inode, have run out.
\<close>

definition expand_post :: "FileSystem \<Rightarrow> Inode \<Rightarrow> nat \<Rightarrow> FileSystem \<Rightarrow> Inode \<Rightarrow> bool" where
  "expand_post fs nd new_size fs' nd' =
     (let nb = nblocks (isize nd); nb' = nblocks (isize nd'); nbn = nblocks new_size in
      mounted fs' \<and> meta_data fs' = meta_data fs
      \<and> (case disk fs of
            None \<Rightarrow> False
          | Some d \<Rightarrow>
              (case disk fs' of
                 None \<Rightarrow> False
               | Some d' \<Rightarrow>
                   blocks d' = blocks d \<and> fd d' = fd d
                   \<and> (\<forall>b. \<not> block_used fs' b \<longrightarrow> contents d' b = contents d b)))
      \<and> wf_inode fs' nd' \<and> valid nd' = valid nd
      \<and> nb \<le> nb' \<and> nb' \<le> max nb nbn
      \<and> isize nd' = (if nb < nbn then (if nb' = nbn then new_size else nb' * BLOCK_SIZE)
                     else max (isize nd) new_size)
      \<and> free_count fs' + (nb' - nb)
           + (if nb \<le> POINTERS_PER_INODE \<and> POINTERS_PER_INODE < nb' then 1 else 0)
         = free_count fs
      \<and> (nb' < nbn \<longrightarrow>
            free_count fs' = 0 \<or> nb' = POINTERS_PER_INODE + POINTERS_PER_BLOCK
            \<or> (nb' = POINTERS_PER_INODE \<and> free_count fs' = 1)))"

subsection \<open>The effect of the copy loops\<close>

text \<open>
  The blocks that hold the bytes of a well-formed inode, in the order of the file:
  its direct blocks and then the blocks of its indirect block.
\<close>

definition file_blocks :: "Disk \<Rightarrow> Inode \<Rightarrow> nat list" where
  "file_blocks d nd =
     take (nblocks (isize nd)) (direct nd) @
     take (nblocks (isize nd) - POINTERS_PER_INODE)
       (map (get32 (contents d (indirect nd))) [0..<POINTERS_PER_BLOCK])"

text \<open>
  What the two loops of \<^verbatim>\<open>fs_write\<close> do to the contents \<open>c\<close> of a disk when they go
  through the blocks \<open>bs\<close> and every read and write succeeds: block after block, as
  long as bytes are left, the bytes of \<open>data\<close> from \<open>bw\<close> on are laid over the block
  from \<open>off\<close> on. The result is the contents, the offset and the bytes written.
\<close>

fun wloop :: "(nat \<Rightarrow> Block) \<Rightarrow> nat list \<Rightarrow> (nat \<Rightarrow> byte) \<Rightarrow> nat \<Rightarrow> nat \<Rightarrow> nat
    \<Rightarrow> (nat \<Rightarrow> Block) \<times> nat \<times> nat" where
  "wloop c [] data len off bw = (c, off, bw)"
| "wloop c (b # bs) data len off bw =
     (if bw < len then
        (let sz = min (BLOCK_SIZE - off) (len - bw)
         in wloop (c(b := (\<lambda>k. if off \<le> k \<and> k < off + sz then data (bw + (k - off)) else c b k)))
              bs data len 0 (bw + sz))
      else (c, off, bw))"

text \<open>
  What the two loops of \<^verbatim>\<open>fs_read\<close> do to the caller's buffer when they start at the
  beginning of a block, go through the blocks \<open>bs\<close> and every read succeeds. The
  result is the buffer and the bytes read.
\<close>

fun rloop :: "(nat \<Rightarrow> Block) \<Rightarrow> nat list \<Rightarrow> (nat \<Rightarrow> byte) \<Rightarrow> nat \<Rightarrow> nat
    \<Rightarrow> (nat \<Rightarrow> byte) \<times> nat" where
  "rloop c [] data len br = (data, br)"
| "rloop c (b # bs) data len br =
     (if br < len then
        (let sz = min BLOCK_SIZE (len - br)
         in rloop c bs (\<lambda>k. if br \<le> k \<and> k < br + sz then c b (k - br) else data k) len (br + sz))
      else (data, br))"

text \<open>
  The number of data blocks that an inode holds: the pointers of its direct array
  and, when it has an indirect block, the pointers in that block.
\<close>

definition data_block_count :: "Disk \<Rightarrow> Inode \<Rightarrow> nat" where
  "data_block_count d nd =
     length (pointer_list (direct nd)) +
     (if indirect nd \<noteq> 0
      then length (pointer_list (map (get32 (contents d (indirect nd))) [0..<POINTERS_PER_BLOCK]))
      else 0)"

subsection \<open>Example states\<close>

text \<open>
  A disk of five blocks (superblock, one inode block, three data blocks) whose blocks
  are all zero, and a file system mounted on it in which blocks 3 and 4 are free.
\<close>

definition example_disk :: Disk where
  "example_disk = \<lparr>fd = 3, blocks = 5, contents = (\<lambda>_. zero_block)\<rparr>"

definition example_fs :: FileSystem where
  "example_fs = \<lparr>disk = Some example_disk,
     meta_data = \<lparr>magic_number = MAGIC_NUMBER, sb_blocks = 5, inode_blocks = 1, inodes = 128\<rparr>,
     free_blocks = Some [False, False, False, True, True]\<rparr>"

text \<open>A file system structure with no disk attached.\<close>

definition unmounted_fs :: FileSystem where
  "unmounted_fs = \<lparr>disk = None,
     meta_data = \<lparr>magic_number = 0, sb_blocks = 0, inode_blocks = 0, inodes = 0\<rparr>,
     free_blocks = None\<rparr>"

text \<open>
  An image of five blocks with a valid superblock, whose inode 0 is valid, holds 100
  bytes and has block 3 as its only data block.
\<close>

definition example_image :: Disk where
  "example_image = \<lparr>fd = 3, blocks = 5,
     contents = (\<lambda>_. zero_block)
       (0 := set32 (set32 (set32 (set32 zero_block 0 MAGIC_NUMBER) 1 5) 2 1) 3 128,
        1 := set_inode zero_block 0
               \<lparr>valid = 1, isize = 100, direct = [3, 0, 0, 0, 0], indirect = 0\<rparr>)\<rparr>"

text \<open>
  The file system that \<^verbatim>\<open>fs_mount\<close> builds on the example image: the data blocks 2 and
  4 are free.
\<close>

definition example_image_fs :: FileSystem where
  "example_image_fs = \<lparr>disk = Some example_image,
     meta_data = \<lparr>magic_number = MAGIC_NUMBER, sb_blocks = 5, inode_blocks = 1, inodes = 128\<rparr>,
     free_blocks = Some [False, False, True, False, True]\<rparr>"

text \<open>The example image mounted, with no free block left.\<close>

definition full_fs :: FileSystem where
  "full_fs = \<lparr>disk = Some example_image,
     meta_data = \<lparr>magic_number = MAGIC_NUMBER, sb_blocks = 5, inode_blocks = 1, inodes = 128\<rparr>,
     free_blocks = Some [False, False, False, False, False]\<rparr>"

text \<open>A caller's buffer of zero bytes.\<close>

definition zero_buffer :: "nat \<Rightarrow> byte" where
  "zero_buffer = (\<lambda>_. 0)"

text \<open>
  An image of twelve blocks whose inode 0 holds seven blocks: the direct blocks
  3 to 7 and, through the indirect block 8, the blocks 9 and 10; and a file system
  mounted on it.
\<close>

definition indirect_image :: Disk where
  "indirect_image = \<lparr>fd = 3, blocks = 12,
     contents = (\<lambda>_. zero_block)
       (0 := set32 (set32 (set32 (set32 zero_block 0 MAGIC_NUMBER) 1 12) 2 2) 3 256,
        1 := set_inode zero_block 0
               \<lparr>valid = 1, isize = 7 * 4096, direct = [3, 4, 5, 6, 7], indirect = 8\<rparr>,
        8 := set32 (set32 zero_block 0 9) 1 10)\<rparr>"

definition indirect_fs :: FileSystem where
  "indirect_fs = \<lparr>disk = Some indirect_image,
     meta_data = \<lparr>magic_number = MAGIC_NUMBER, sb_blocks = 12, inode_blocks = 2, inodes = 256\<rparr>,
     free_blocks = Some [False, False, False, False, False, False, False, False, False, False,
                         False, True]\<rparr>"



text \<open>
  The file system mounted on the five zero blocks of \<open>example_disk\<close> with its three
  data blocks free: what \<^verbatim>\<open>fs_mount\<close> builds on a formatted disk of five blocks, as far as
  the inode table, the superblock copy and the bitmap go.
\<close>

definition tiny_fs :: FileSystem where
  "tiny_fs = \<lparr>disk = Some example_disk,
     meta_data = \<lparr>magic_number = MAGIC_NUMBER, sb_blocks = 5, inode_blocks = 1, inodes = 128\<rparr>,
     free_blocks = Some [False, False, True, True, True]\<rparr>"

text \<open>
  An image of five blocks with a valid superblock whose slot 0 is invalid and holds
  the size \<open>4 * 4096\<close> and no pointer, and the file system that \<^verbatim>\<open>fs_mount\<close> builds on it.
\<close>

definition stale_size_image :: Disk where
  "stale_size_image = \<lparr>fd = 3, blocks = 5,
     contents = (\<lambda>_. zero_block)
       (0 := set32 (set32 (set32 (set32 zero_block 0 MAGIC_NUMBER) 1 5) 2 1) 3 128,
        1 := set_inode zero_block 0
               \<lparr>valid = 0, isize = 4 * 4096, direct = [0, 0, 0, 0, 0], indirect = 0\<rparr>)\<rparr>"

definition stale_size_fs :: FileSystem where
  "stale_size_fs = \<lparr>disk = Some stale_size_image,
     meta_data = \<lparr>magic_number = MAGIC_NUMBER, sb_blocks = 5, inode_blocks = 1, inodes = 128\<rparr>,
     free_blocks = Some [False, False, True, True, True]\<rparr>"

section \<open>Properties\<close>

subsection \<open>Words in a block, the allocator\<close>


lemma unat_byte: "unat (of_nat x :: byte) = x mod 256"
  by (simp add: unat_of_nat)

lemma unat_byte_lt: "unat (x :: byte) < 256"
  using unsigned_less[of x, where 'a=nat] by simp

lemma get32_lt: "get32 b k < U32"
  using unat_byte_lt[of "b (4*k)"] unat_byte_lt[of "b (4*k+1)"] unat_byte_lt[of "b (4*k+2)"] unat_byte_lt[of "b (4*k+3)"]
  unfolding get32_def U32_def by simp

lemma le32_roundtrip: "v mod 256 + 256 * (v div 256 mod 256) + 65536 * (v div 65536 mod 256) + 16777216 * (v div 16777216 mod 256) = v mod 4294967296" for v :: nat
proof -
  have a: "v mod (256 * 16777216) = 256 * (v div 256 mod 16777216) + v mod 256"
    by (rule mod_mult2_eq)
  have b: "(v div 256) mod (256 * 65536) = 256 * (v div 256 div 256 mod 65536) + v div 256 mod 256"
    by (rule mod_mult2_eq)
  have c: "(v div 65536) mod (256 * 256) = 256 * (v div 65536 div 256 mod 256) + v div 65536 mod 256"
    by (rule mod_mult2_eq)
  have d1: "v div 256 div 256 = v div 65536" by (simp add: div_mult2_eq[symmetric])
  have d2: "v div 65536 div 256 = v div 16777216" by (simp add: div_mult2_eq[symmetric])
  from a b c d1 d2 show ?thesis by simp
qed

lemma get32_set32: "get32 (set32 b k v) k' = (if k' = k then v mod U32 else get32 b k')"
proof (cases "k' = k")
  case True
  then show ?thesis
    using le32_roundtrip[of v]
    by (simp add: get32_def set32_def unat_byte U32_def)
next
  case False
  then have "4 * k' \<noteq> 4 * k" "4 * k' \<noteq> 4 * k + 1" "4 * k' \<noteq> 4 * k + 2" "4 * k' \<noteq> 4 * k + 3"
    "4 * k' + 1 \<noteq> 4 * k" "4 * k' + 1 \<noteq> 4 * k + 1" "4 * k' + 1 \<noteq> 4 * k + 2" "4 * k' + 1 \<noteq> 4 * k + 3"
    "4 * k' + 2 \<noteq> 4 * k" "4 * k' + 2 \<noteq> 4 * k + 1" "4 * k' + 2 \<noteq> 4 * k + 2" "4 * k' + 2 \<noteq> 4 * k + 3"
    "4 * k' + 3 \<noteq> 4 * k" "4 * k' + 3 \<noteq> 4 * k + 1" "4 * k' + 3 \<noteq> 4 * k + 2" "4 * k' + 3 \<noteq> 4 * k + 3"
    by presburger+
  then show ?thesis using False
    by (simp add: get32_def set32_def)
qed

lemma get32_zero_block [simp]: "get32 zero_block k = 0"
  by (simp add: get32_def zero_block_def)

lemma alloc_scan_stop: "\<not> i < n \<Longrightarrow> alloc_scan fs n i = Inr i"
  by (subst alloc_scan.simps) simp

lemma alloc_scan_spec:
  "free_blocks fs = Some bm \<Longrightarrow> n \<le> length bm \<Longrightarrow> i \<le> n \<Longrightarrow>
   \<exists>r. alloc_scan fs n i = Inr r \<and> i \<le> r \<and> r \<le> n \<and> (\<forall>j. i \<le> j \<and> j < r \<longrightarrow> \<not> bm ! j) \<and> (r < n \<longrightarrow> bm ! r)"
proof (induction fs n i rule: alloc_scan.induct)
  case (1 fs n i)
  show ?case
  proof (cases "i < n")
    case False
    with "1.prems" show ?thesis by (auto simp add: alloc_scan_stop)
  next
    case True
    show ?thesis
    proof (cases "bm ! i")
      case True
      with \<open>i < n\<close> "1.prems" show ?thesis
        by (subst alloc_scan.simps) (auto simp add: bitmap_get_def)
    next
      case False
      have g: "bitmap_get fs i = Inr False" using False \<open>i < n\<close> "1.prems" by (simp add: bitmap_get_def)
      from "1.IH"[OF \<open>i < n\<close> g _ "1.prems"(1,2)] \<open>i < n\<close>
      obtain r where r: "alloc_scan fs n (i + 1) = Inr r" "i + 1 \<le> r" "r \<le> n"
         "\<forall>j. i + 1 \<le> j \<and> j < r \<longrightarrow> \<not> bm ! j" "r < n \<longrightarrow> bm ! r" by auto
      have "\<forall>j. i \<le> j \<and> j < r \<longrightarrow> \<not> bm ! j"
      proof (intro allI impI)
        fix j assume "i \<le> j \<and> j < r"
        then show "\<not> bm ! j" using r(4) False by (cases "j = i") auto
      qed
      with r g \<open>i < n\<close> show ?thesis
        by (subst alloc_scan.simps) simp
    qed
  qed
qed

lemma mounted_start:
  assumes "mounted fs"
  shows "Suc (inode_blocks (meta_data fs)) mod U32 = Suc (inode_blocks (meta_data fs))"
proof -
  from assms have "inode_blocks (meta_data fs) = ((sb_blocks (meta_data fs) + 9) mod U32) div 10"
    by (auto simp: mounted_def split: option.splits)
  moreover have "((sb_blocks (meta_data fs) + 9) mod U32) < U32" by (simp add: U32_def)
  ultimately have "inode_blocks (meta_data fs) < U32 div 10 + 1"
    by (metis div_le_mono less_imp_le_nat less_Suc_eq_le Suc_eq_plus1)
  then show ?thesis by (simp add: U32_def)
qed

text \<open>
  Claim C6. On a mounted file system \<^verbatim>\<open>fs_allocate_free_block\<close> returns the smallest
  index from \<open>inode_blocks + 1\<close> on whose bitmap entry is free, and sets that entry to
  not free; it returns \<open>- 1\<close> and changes nothing when no entry from \<open>inode_blocks + 1\<close>
  on is free; it never returns 0.
\<close>

theorem fs_allocate_free_block_first_fit:
  assumes "mounted fs"
  shows "\<exists>d bm. disk fs = Some d \<and> free_blocks fs = Some bm \<and>
     ((\<exists>i. inode_blocks (meta_data fs) + 1 \<le> i \<and> i < blocks d \<and> bm ! i
          \<and> (\<forall>j. inode_blocks (meta_data fs) + 1 \<le> j \<and> j < i \<longrightarrow> \<not> bm ! j)
          \<and> fs_allocate_free_block fs = Inr (fs\<lparr>free_blocks := Some (bm[i := False])\<rparr>, int i))
      \<or> ((\<forall>j. inode_blocks (meta_data fs) + 1 \<le> j \<and> j < blocks d \<longrightarrow> \<not> bm ! j)
          \<and> fs_allocate_free_block fs = Inr (fs, - 1)))
     \<and> (\<forall>fs' r. fs_allocate_free_block fs = Inr (fs', r) \<longrightarrow> r \<noteq> 0)"
proof -
  from assms obtain d bm where d: "disk fs = Some d" and bm: "free_blocks fs = Some bm"
    and len: "length bm = blocks d" and ib: "inode_blocks (meta_data fs) < blocks d"
    by (auto simp: mounted_def split: option.splits)
  let ?s = "1 + inode_blocks (meta_data fs)"
  from alloc_scan_spec[OF bm, of "blocks d" ?s] len ib
  obtain r where r: "alloc_scan fs (blocks d) ?s = Inr r" "?s \<le> r" "r \<le> blocks d"
     "\<forall>j. ?s \<le> j \<and> j < r \<longrightarrow> \<not> bm ! j" "r < blocks d \<longrightarrow> bm ! r" by auto
  have alt: "(\<exists>i. inode_blocks (meta_data fs) + 1 \<le> i \<and> i < blocks d \<and> bm ! i
          \<and> (\<forall>j. inode_blocks (meta_data fs) + 1 \<le> j \<and> j < i \<longrightarrow> \<not> bm ! j)
          \<and> fs_allocate_free_block fs = Inr (fs\<lparr>free_blocks := Some (bm[i := False])\<rparr>, int i))
      \<or> ((\<forall>j. inode_blocks (meta_data fs) + 1 \<le> j \<and> j < blocks d \<longrightarrow> \<not> bm ! j)
          \<and> fs_allocate_free_block fs = Inr (fs, - 1))"
  proof (cases "r < blocks d")
    case True
    have "fs_allocate_free_block fs = Inr (fs\<lparr>free_blocks := Some (bm[r := False])\<rparr>, int r)"
      using True r(1) d bm len
      by (simp add: fs_allocate_free_block_def disk_blocks_def mounted_start[OF assms] bitmap_set_def)
    with True r show ?thesis by auto
  next
    case False
    with r(3) have "r = blocks d" by simp
    have "fs_allocate_free_block fs = Inr (fs, - 1)"
      using False r(1) d
      by (simp add: fs_allocate_free_block_def disk_blocks_def mounted_start[OF assms])
    with r(4) \<open>r = blocks d\<close> show ?thesis by auto
  qed
  have "\<forall>fs' r. fs_allocate_free_block fs = Inr (fs', r) \<longrightarrow> r \<noteq> 0"
    using alt by auto
  with alt d bm show ?thesis by blast
qed

theorem fs_allocate_free_block_first_fit_witness:
  "mounted example_fs \<and> (\<exists>d bm. disk example_fs = Some d \<and> free_blocks example_fs = Some bm \<and>
     ((\<exists>i. inode_blocks (meta_data example_fs) + 1 \<le> i \<and> i < blocks d \<and> bm ! i
          \<and> (\<forall>j. inode_blocks (meta_data example_fs) + 1 \<le> j \<and> j < i \<longrightarrow> \<not> bm ! j)
          \<and> fs_allocate_free_block example_fs = Inr (example_fs\<lparr>free_blocks := Some (bm[i := False])\<rparr>, int i))
      \<or> ((\<forall>j. inode_blocks (meta_data example_fs) + 1 \<le> j \<and> j < blocks d \<longrightarrow> \<not> bm ! j)
          \<and> fs_allocate_free_block example_fs = Inr (example_fs, - 1)))
     \<and> (\<forall>fs' r. fs_allocate_free_block example_fs = Inr (fs', r) \<longrightarrow> r \<noteq> 0))"
proof -
  have m: "mounted example_fs"
    by (simp add: mounted_def example_fs_def example_disk_def U32_def INODES_PER_BLOCK_def)
  show ?thesis by (rule conjI [OF m fs_allocate_free_block_first_fit [OF m]])
qed

subsection \<open>The bitmap built by fs\_mount\<close>


lemma bitmap_set_Inr:
  "bitmap_set fs i v = Inr fs' \<Longrightarrow>
   \<exists>bm. free_blocks fs = Some bm \<and> i < length bm \<and> fs' = fs\<lparr>free_blocks := Some (bm[i := v])\<rparr>"
  by (auto simp: bitmap_set_def split: option.splits if_splits)

lemma marks_refl: "free_blocks fs = Some bm \<Longrightarrow> marks fs fs {}"
  by (simp add: marks_def)

lemma marks_trans: "marks fs fs' S \<Longrightarrow> marks fs' fs'' T \<Longrightarrow> marks fs fs'' (S \<union> T)"
  by (auto simp: marks_def split: option.splits)

lemma marks_set: "bitmap_set fs i False = Inr fs' \<Longrightarrow> marks fs fs' {i}"
  by (drule bitmap_set_Inr) (auto simp: marks_def nth_list_update)

lemma marks_Some: "marks fs fs' S \<Longrightarrow> \<exists>bm. free_blocks fs = Some bm"
  by (auto simp: marks_def split: option.splits)

lemma mark_used_stop: "\<not> (k < n \<and> ptr k \<noteq> 0) \<Longrightarrow> mark_used fs ptr n k = Inr fs"
  by (subst mark_used.simps) auto

lemma mark_used_step: "k < n \<Longrightarrow> ptr k \<noteq> 0 \<Longrightarrow> mark_used fs ptr n k =
   (case bitmap_set fs (ptr k) False of Inl f \<Rightarrow> Inl f | Inr fs' \<Rightarrow> mark_used fs' ptr n (k + 1))"
  by (subst mark_used.simps) simp

lemma pointer_list_from_stop: "\<not> (k < n \<and> ptr k \<noteq> 0) \<Longrightarrow> pointer_list (map ptr [k..<n]) = []"
  by (cases "k < n") (simp_all add: pointer_list_def upt_conv_Cons)

lemma pointer_list_from_step: "k < n \<Longrightarrow> ptr k \<noteq> 0 \<Longrightarrow>
   pointer_list (map ptr [k..<n]) = ptr k # pointer_list (map ptr [k + 1..<n])"
  by (simp add: pointer_list_def upt_conv_Cons)

lemma mark_used_marks:
  "mark_used fs ptr n k = Inr fs' \<Longrightarrow> free_blocks fs = Some bm \<Longrightarrow>
   marks fs fs' (set (pointer_list (map ptr [k..<n])))"
proof (induction fs ptr n k arbitrary: bm rule: mark_used.induct)
  case (1 fs ptr n k)
  show ?case
  proof (cases "k < n \<and> ptr k \<noteq> 0")
    case False
    with "1.prems" show ?thesis
      by (simp add: mark_used_stop pointer_list_from_stop marks_refl)
  next
    case True
    with "1.prems"(1) obtain fs1 where s: "bitmap_set fs (ptr k) False = Inr fs1"
      and r: "mark_used fs1 ptr n (k + 1) = Inr fs'"
      by (auto simp: mark_used_step split: sum.splits)
    from marks_set[OF s] have m1: "marks fs fs1 {ptr k}" .
    from bitmap_set_Inr[OF s] obtain bm1 where "free_blocks fs1 = Some bm1" by auto
    from "1.IH"[OF True s r this] have m2: "marks fs1 fs' (set (pointer_list (map ptr [k + 1..<n])))" .
    from marks_trans[OF m1 m2] True show ?thesis
      by (simp add: pointer_list_from_step)
  qed
qed

lemma length_direct_get_inode [simp]: "length (direct (get_inode b j)) = POINTERS_PER_INODE"
  by (simp add: get_inode_def)

lemma map_nth_direct: "length xs = n \<Longrightarrow> map (\<lambda>k. xs ! k) [0..<n] = xs"
  by (auto simp: map_nth)

lemma disk_read_Some: "disk_read dsk b = Some blk \<Longrightarrow> \<exists>d. dsk = Some d \<and> blk = contents d b \<and> b < blocks d \<and> 0 \<le> fd d"
  by (auto simp: disk_read_def disk_sanity_check_def split: option.splits if_splits)

lemma mark_inode_marks:
  assumes "mark_inode fs nd = Inr fs'" "free_blocks fs = Some bm" "disk fs = Some d"
    "length (direct nd) = POINTERS_PER_INODE"
  shows "marks fs fs' (set (if valid nd \<noteq> 0 then inode_block_list d nd else []))"
proof (cases "valid nd \<noteq> 0")
  case False
  with assms show ?thesis by (simp add: mark_inode_def marks_refl)
next
  case True
  with assms(1) obtain fs1 where
    a: "mark_used fs (\<lambda>k. direct nd ! k) POINTERS_PER_INODE 0 = Inr fs1"
    by (auto simp: mark_inode_def split: sum.splits)
  from mark_used_marks[OF a assms(2)] assms(4)
  have m1: "marks fs fs1 (set (pointer_list (direct nd)))"
    by (simp add: map_nth_direct)
  show ?thesis
  proof (cases "indirect nd \<noteq> 0")
    case False
    with True assms(1) a have "fs' = fs1" by (simp add: mark_inode_def)
    with m1 True False show ?thesis by (simp add: inode_block_list_def)
  next
    case ind: True
    with True assms(1) a obtain fs2 blk where
      b: "bitmap_set fs1 (indirect nd) False = Inr fs2"
      and c: "disk_read (disk fs2) (indirect nd) = Some blk"
      and e: "mark_used fs2 (get32 blk) POINTERS_PER_BLOCK 0 = Inr fs'"
      by (auto simp: mark_inode_def split: sum.splits option.splits)
    from marks_set[OF b] have m2: "marks fs1 fs2 {indirect nd}" .
    from m1 m2 have "disk fs2 = Some d" using assms(3) by (simp add: marks_def)
    with disk_read_Some[OF c] have blk: "blk = contents d (indirect nd)" by auto
    from bitmap_set_Inr[OF b] obtain bm2 where "free_blocks fs2 = Some bm2" by auto
    from mark_used_marks[OF e this]
    have m3: "marks fs2 fs' (set (pointer_list (map (get32 blk) [0..<POINTERS_PER_BLOCK])))" .
    from marks_trans[OF marks_trans[OF m1 m2] m3] True ind blk show ?thesis
      by (simp add: inode_block_list_def Un_commute insert_commute)
  qed
qed

lemma mark_slots_stop: "\<not> j < INODES_PER_BLOCK \<Longrightarrow> mark_slots fs block j = Inr fs"
  by (subst mark_slots.simps) simp

lemma mark_slots_step: "j < INODES_PER_BLOCK \<Longrightarrow> mark_slots fs block j =
  (case mark_inode fs (get_inode block j) of Inl f \<Rightarrow> Inl f | Inr fs' \<Rightarrow> mark_slots fs' block (j + 1))"
  by (subst mark_slots.simps) simp

lemma mark_slots_marks:
  "mark_slots fs block j = Inr fs' \<Longrightarrow> free_blocks fs = Some bm \<Longrightarrow> disk fs = Some d \<Longrightarrow>
   marks fs fs' (set (concat (map (slot_blocks d block) [j..<INODES_PER_BLOCK])))"
proof (induction fs block j arbitrary: bm rule: mark_slots.induct)
  case (1 fs block j)
  show ?case
  proof (cases "j < INODES_PER_BLOCK")
    case False
    with "1.prems" show ?thesis by (simp add: mark_slots_stop marks_refl)
  next
    case True
    with "1.prems"(1) obtain fs1 where a: "mark_inode fs (get_inode block j) = Inr fs1"
      and b: "mark_slots fs1 block (j + 1) = Inr fs'"
      by (auto simp: mark_slots_step split: sum.splits)
    from mark_inode_marks[OF a "1.prems"(2,3)]
    have m1: "marks fs fs1 (set (slot_blocks d block j))" by (simp add: slot_blocks_def Let_def)
    then have d1: "disk fs1 = Some d" using "1.prems"(3) by (simp add: marks_def)
    from m1 obtain bm1 where "free_blocks fs1 = Some bm1"
      by (auto simp: marks_def split: option.splits)
    from "1.IH"[OF True a b this d1]
    have m2: "marks fs1 fs' (set (concat (map (slot_blocks d block) [j + 1..<INODES_PER_BLOCK])))" .
    from marks_trans[OF m1 m2] True show ?thesis
      by (simp add: upt_conv_Cons)
  qed
qed

lemma mark_blocks_stop: "\<not> i < n \<Longrightarrow> mark_blocks fs n i = Inr fs"
  by (subst mark_blocks.simps) simp

lemma mark_blocks_step: "i < n \<Longrightarrow> mark_blocks fs n i =
  (case disk_read (disk fs) (i + 1) of None \<Rightarrow> Inl ExitFailure
   | Some block \<Rightarrow> (case mark_slots fs block 0 of Inl f \<Rightarrow> Inl f | Inr fs' \<Rightarrow> mark_blocks fs' n (i + 1)))"
  by (subst mark_blocks.simps) simp

lemma mark_blocks_marks:
  "mark_blocks fs n i = Inr fs' \<Longrightarrow> free_blocks fs = Some bm \<Longrightarrow> disk fs = Some d \<Longrightarrow>
   marks fs fs' (set (concat (map (\<lambda>i. concat (map (slot_blocks d (contents d (i + 1))) [0..<INODES_PER_BLOCK])) [i..<n])))"
proof (induction fs n i arbitrary: bm rule: mark_blocks.induct)
  case (1 fs n i)
  show ?case
  proof (cases "i < n")
    case False
    with "1.prems" show ?thesis by (simp add: mark_blocks_stop marks_refl)
  next
    case True
    with "1.prems"(1) obtain blk fs1 where a: "disk_read (disk fs) (i + 1) = Some blk"
      and b: "mark_slots fs blk 0 = Inr fs1" and c: "mark_blocks fs1 n (i + 1) = Inr fs'"
      by (auto simp: mark_blocks_step split: sum.splits option.splits)
    from disk_read_Some[OF a] "1.prems"(3) have blk: "blk = contents d (i + 1)" by auto
    from mark_slots_marks[OF b "1.prems"(2,3)]
    have m1: "marks fs fs1 (set (concat (map (slot_blocks d blk) [0..<INODES_PER_BLOCK])))" .
    then have d1: "disk fs1 = Some d" using "1.prems"(3) by (simp add: marks_def)
    from m1 obtain bm1 where "free_blocks fs1 = Some bm1"
      by (auto simp: marks_def split: option.splits)
    from "1.IH"[OF True a b c this d1] marks_trans[OF m1] True blk show ?thesis
      by (simp add: upt_conv_Cons)
  qed
qed


lemma init_used_stop: "\<not> i \<le> n \<Longrightarrow> init_used fs i n = Inr (fs, i)"
  by (subst init_used.simps) simp

lemma init_used_step: "i \<le> n \<Longrightarrow> init_used fs i n =
  (case bitmap_set fs i False of Inl f \<Rightarrow> Inl f | Inr fs' \<Rightarrow> init_used fs' (i + 1) n)"
  by (subst init_used.simps) simp

lemma init_used_spec:
  "init_used fs i n = Inr (fs', k) \<Longrightarrow> free_blocks fs = Some bm \<Longrightarrow> i \<le> n + 1 \<Longrightarrow>
   \<exists>bm'. free_blocks fs' = Some bm' \<and> length bm' = length bm \<and> k = n + 1
     \<and> (i \<le> n \<longrightarrow> n < length bm)
     \<and> (\<forall>b < length bm. bm' ! b = (if i \<le> b \<and> b \<le> n then False else bm ! b))
     \<and> disk fs' = disk fs \<and> meta_data fs' = meta_data fs"
proof (induction fs i n arbitrary: bm rule: init_used.induct)
  case (1 fs i n)
  show ?case
  proof (cases "i \<le> n")
    case False
    with "1.prems" show ?thesis by (auto simp: init_used_stop)
  next
    case True
    with "1.prems"(1) obtain fs1 where a: "bitmap_set fs i False = Inr fs1"
      and b: "init_used fs1 (i + 1) n = Inr (fs', k)"
      by (auto simp: init_used_step split: sum.splits)
    from bitmap_set_Inr[OF a] "1.prems"(2)
    have fs1: "fs1 = fs\<lparr>free_blocks := Some (bm[i := False])\<rparr>" and il: "i < length bm" by auto
    then have f1: "free_blocks fs1 = Some (bm[i := False])" by simp
    from "1.IH"[OF True a b f1] True
    obtain bm' where r: "free_blocks fs' = Some bm'" "length bm' = length bm" "k = n + 1"
      "i + 1 \<le> n \<longrightarrow> n < length bm"
      "\<forall>b < length bm. bm' ! b = (if i + 1 \<le> b \<and> b \<le> n then False else (bm[i := False]) ! b)"
      "disk fs' = disk fs1" "meta_data fs' = meta_data fs1" by auto
    have "n < length bm" using r(4) il True by (cases "i = n") auto
    moreover have "\<forall>b < length bm. bm' ! b = (if i \<le> b \<and> b \<le> n then False else bm ! b)"
    proof (intro allI impI)
      fix b assume "b < length bm"
      with r(5) True show "bm' ! b = (if i \<le> b \<and> b \<le> n then False else bm ! b)"
        by (cases "b = i") (auto simp: nth_list_update)
    qed
    ultimately show ?thesis using r fs1 by simp
  qed
qed

lemma init_free_stop: "\<not> i < n \<Longrightarrow> init_free fs i n = Inr fs"
  by (subst init_free.simps) simp

lemma init_free_step: "i < n \<Longrightarrow> init_free fs i n =
  (case bitmap_set fs i True of Inl f \<Rightarrow> Inl f | Inr fs' \<Rightarrow> init_free fs' (i + 1) n)"
  by (subst init_free.simps) simp

lemma init_free_spec:
  "init_free fs i n = Inr fs' \<Longrightarrow> free_blocks fs = Some bm \<Longrightarrow>
   \<exists>bm'. free_blocks fs' = Some bm' \<and> length bm' = length bm
     \<and> (i < n \<longrightarrow> n \<le> length bm)
     \<and> (\<forall>b < length bm. bm' ! b = (if i \<le> b \<and> b < n then True else bm ! b))
     \<and> disk fs' = disk fs \<and> meta_data fs' = meta_data fs"
proof (induction fs i n arbitrary: bm rule: init_free.induct)
  case (1 fs i n)
  show ?case
  proof (cases "i < n")
    case False
    with "1.prems" show ?thesis by (auto simp: init_free_stop)
  next
    case True
    with "1.prems"(1) obtain fs1 where a: "bitmap_set fs i True = Inr fs1"
      and b: "init_free fs1 (i + 1) n = Inr fs'"
      by (auto simp: init_free_step split: sum.splits)
    from bitmap_set_Inr[OF a] "1.prems"(2)
    have fs1: "fs1 = fs\<lparr>free_blocks := Some (bm[i := True])\<rparr>" and il: "i < length bm" by auto
    then have f1: "free_blocks fs1 = Some (bm[i := True])" by simp
    from "1.IH"[OF True a b f1]
    obtain bm' where r: "free_blocks fs' = Some bm'" "length bm' = length bm"
      "i + 1 < n \<longrightarrow> n \<le> length bm"
      "\<forall>b < length bm. bm' ! b = (if i + 1 \<le> b \<and> b < n then True else (bm[i := True]) ! b)"
      "disk fs' = disk fs1" "meta_data fs' = meta_data fs1" by auto
    have "n \<le> length bm" using r(3) il True by (cases "i + 1 = n") auto
    moreover have "\<forall>b < length bm. bm' ! b = (if i \<le> b \<and> b < n then True else bm ! b)"
    proof (intro allI impI)
      fix b assume "b < length bm"
      with r(4) True show "bm' ! b = (if i \<le> b \<and> b < n then True else bm ! b)"
        by (cases "b = i") (auto simp: nth_list_update)
    qed
    ultimately show ?thesis using r fs1 by simp
  qed
qed

lemma used_blocks_slot: "used_blocks d =
  concat (map (\<lambda>i. concat (map (slot_blocks d (contents d (i + 1))) [0..<INODES_PER_BLOCK]))
     [0..<inode_blocks (get_super (contents d 0))])"
  unfolding used_blocks_def slot_blocks_def ..

lemma fs_initialize_spec:
  assumes "fs_initialize_free_block_bitmap junk fs = Inr fs'" "disk fs = Some d"
  shows "\<exists>bm. free_blocks fs' = Some bm \<and> length bm = blocks d
     \<and> disk fs' = Some d \<and> meta_data fs' = meta_data fs
     \<and> inode_blocks (meta_data fs) < blocks d
     \<and> (inode_blocks (meta_data fs) + 1 < sb_blocks (meta_data fs) \<longrightarrow> sb_blocks (meta_data fs) \<le> blocks d)
     \<and> (\<forall>b \<le> inode_blocks (meta_data fs). \<not> bm ! b)
     \<and> (\<forall>b. inode_blocks (meta_data fs) < b \<and> b < sb_blocks (meta_data fs) \<longrightarrow>
           (bm ! b \<longleftrightarrow> b \<notin> set (concat (map (\<lambda>i. concat (map (slot_blocks d (contents d (i + 1))) [0..<INODES_PER_BLOCK])) [0..<inode_blocks (meta_data fs)]))))"
proof -
  let ?ib = "inode_blocks (meta_data fs)" and ?sb = "sb_blocks (meta_data fs)"
  let ?fs0 = "fs\<lparr>free_blocks := Some (map junk [0..<blocks d])\<rparr>"
  from assms obtain fs1 k fs2 where
    a: "init_used ?fs0 0 ?ib = Inr (fs1, k)" and b: "init_free fs1 k ?sb = Inr fs2"
    and c: "mark_blocks fs2 (inode_blocks (meta_data fs2)) 0 = Inr fs'"
    by (auto simp: fs_initialize_free_block_bitmap_def disk_blocks_def split: sum.splits)
  from init_used_spec[OF a, of "map junk [0..<blocks d]"]
  obtain bm1 where r1: "free_blocks fs1 = Some bm1" "length bm1 = blocks d" "k = ?ib + 1"
    "?ib < blocks d" "\<forall>b < blocks d. bm1 ! b = (if b \<le> ?ib then False else junk b)"
    "disk fs1 = disk fs" "meta_data fs1 = meta_data fs" by auto
  from init_free_spec[OF b r1(1)] r1
  obtain bm2 where r2: "free_blocks fs2 = Some bm2" "length bm2 = blocks d"
    "?ib + 1 < ?sb \<longrightarrow> ?sb \<le> blocks d"
    "\<forall>b < blocks d. bm2 ! b = (if ?ib + 1 \<le> b \<and> b < ?sb then True else bm1 ! b)"
    "disk fs2 = disk fs" "meta_data fs2 = meta_data fs" by auto
  from r2 assms(2) have d2: "disk fs2 = Some d" by simp
  from mark_blocks_marks[OF c r2(1) d2] r2(6)
  have m: "marks fs2 fs' (set (concat (map (\<lambda>i. concat (map (slot_blocks d (contents d (i + 1))) [0..<INODES_PER_BLOCK])) [0..<?ib])))"
    (is "marks _ _ ?U") by simp
  then obtain bm where r3: "free_blocks fs' = Some bm" "length bm = blocks d"
    "\<forall>b < blocks d. bm ! b = (bm2 ! b \<and> b \<notin> ?U)" "disk fs' = Some d" "meta_data fs' = meta_data fs"
    using r2 d2 by (auto simp: marks_def split: option.splits)
  have u: "\<forall>b \<le> ?ib. \<not> bm ! b"
  proof (intro allI impI)
    fix b assume "b \<le> ?ib"
    with r1(4) have "b < blocks d" by simp
    with r3(3) r2(4) r1(5) \<open>b \<le> ?ib\<close> show "\<not> bm ! b" by simp
  qed
  have f: "\<forall>b. ?ib < b \<and> b < ?sb \<longrightarrow> (bm ! b \<longleftrightarrow> b \<notin> ?U)"
  proof (intro allI impI)
    fix b assume h: "?ib < b \<and> b < ?sb"
    with r2(3) have "b < blocks d" by simp
    with r3(3) r2(4) h show "bm ! b \<longleftrightarrow> b \<notin> ?U" by simp
  qed
  from r3 r1(4) r2(3) u f show ?thesis by blast
qed

lemma fs_mount_True:
  assumes "fs_mount junk fs dsk = Inr (fs', True)"
  shows "\<exists>d. dsk = Some d \<and> disk fs = None \<and> 0 \<le> fd d \<and> 0 < blocks d
     \<and> magic_number (get_super (contents d 0)) = MAGIC_NUMBER
     \<and> (inode_blocks (get_super (contents d 0)) * INODES_PER_BLOCK) mod U32 = inodes (get_super (contents d 0))
     \<and> inode_blocks (get_super (contents d 0)) = ((sb_blocks (get_super (contents d 0)) + 9) mod U32) div 10
     \<and> fs_initialize_free_block_bitmap junk (fs\<lparr>disk := Some d, meta_data := get_super (contents d 0)\<rparr>) = Inr fs'"
proof -
  from assms obtain d where d: "dsk = Some d" "disk fs = None"
    by (cases dsk) (auto simp: fs_mount_def split: if_splits)
  from assms d obtain blk where r: "disk_read (Some d) 0 = Some blk"
    by (auto simp: fs_mount_def Let_def split: option.splits)
  from disk_read_Some[OF r] have blk: "blk = contents d 0" "0 < blocks d" "0 \<le> fd d" by auto
  from assms d r blk show ?thesis
    by (simp add: fs_mount_def Let_def split: if_splits sum.splits)
qed

text \<open>
  Claim C5. After a successful \<^verbatim>\<open>fs_mount\<close> the bitmap has an entry for every block of
  the disk, marks block 0 and the inode blocks \<open>1 .. inode_blocks\<close> as not free, and
  marks a block \<open>b\<close> of the data region, \<open>inode_blocks < b < blocks\<close>, as free if and
  only if no valid inode of the image reaches \<open>b\<close> through a direct pointer, as its
  indirect block or through a pointer of its indirect block.
\<close>

theorem fs_mount_bitmap:
  assumes "fs_mount junk fs (Some d) = Inr (fs', True)"
  shows "\<exists>bm. free_blocks fs' = Some bm \<and> length bm = blocks d
     \<and> (\<forall>b \<le> inode_blocks (meta_data fs'). \<not> bm ! b)
     \<and> (\<forall>b. inode_blocks (meta_data fs') < b \<and> b < sb_blocks (meta_data fs') \<longrightarrow>
           (bm ! b \<longleftrightarrow> b \<notin> set (used_blocks d)))"
proof -
  from fs_mount_True[OF assms]
  have i: "fs_initialize_free_block_bitmap junk (fs\<lparr>disk := Some d, meta_data := get_super (contents d 0)\<rparr>) = Inr fs'"
    by auto
  from fs_initialize_spec[OF i] show ?thesis
    by (auto simp: used_blocks_slot)
qed

lemma fs_mount_mounted:
  assumes "fs_mount junk fs dsk = Inr (fs', True)"
  shows "mounted fs'"
proof -
  from fs_mount_True[OF assms] obtain d where d: "dsk = Some d" "0 \<le> fd d"
    "magic_number (get_super (contents d 0)) = MAGIC_NUMBER"
    "(inode_blocks (get_super (contents d 0)) * INODES_PER_BLOCK) mod U32 = inodes (get_super (contents d 0))"
    "inode_blocks (get_super (contents d 0)) = ((sb_blocks (get_super (contents d 0)) + 9) mod U32) div 10"
    and i: "fs_initialize_free_block_bitmap junk (fs\<lparr>disk := Some d, meta_data := get_super (contents d 0)\<rparr>) = Inr fs'"
    by auto
  let ?sb = "get_super (contents d 0)"
  from fs_initialize_spec[OF i] obtain bm where r: "free_blocks fs' = Some bm" "length bm = blocks d"
    "disk fs' = Some d" "meta_data fs' = ?sb" "inode_blocks ?sb < blocks d"
    "inode_blocks ?sb + 1 < sb_blocks ?sb \<longrightarrow> sb_blocks ?sb \<le> blocks d" by auto
  have "sb_blocks ?sb \<le> blocks d" using r(5,6) by linarith
  with r d show ?thesis by (simp add: mounted_def)
qed


lemma get_super_example: "get_super (contents example_image 0) = \<lparr>magic_number = MAGIC_NUMBER, sb_blocks = 5, inode_blocks = 1, inodes = 128\<rparr>"
  by (simp add: example_image_def get_super_def get32_set32 U32_def MAGIC_NUMBER_def)

lemma ex_mount: "fs_mount junk unmounted_fs (Some example_image) =
   Inr (\<lparr>disk = Some example_image,
         meta_data = \<lparr>magic_number = MAGIC_NUMBER, sb_blocks = 5, inode_blocks = 1, inodes = 128\<rparr>,
         free_blocks = Some [False, False, True, False, True]\<rparr>, True)"
  apply (simp add: fs_mount_def unmounted_fs_def disk_read_def disk_sanity_check_def get_super_example)
  apply (simp add: example_image_def  U32_def INODES_PER_BLOCK_def fs_initialize_free_block_bitmap_def disk_blocks_def)
  apply (simp add: init_used.simps init_free.simps bitmap_set_def upt_rec)
  apply (simp add: mark_blocks.simps disk_read_def disk_sanity_check_def)
  apply (simp add: mark_blocks.simps mark_slots.simps INODES_PER_BLOCK_def mark_inode_def get_inode_def set_inode_def get32_set32 POINTERS_PER_INODE_def upt_rec mark_used.simps bitmap_set_def U32_def)
  done


text \<open>The hypothesis of \<open>fs_mount_bitmap\<close> holds for the example image.\<close>

theorem fs_mount_bitmap_witness:
  "fs_mount (\<lambda>_. False) unmounted_fs (Some example_image) =
     Inr (\<lparr>disk = Some example_image,
           meta_data = \<lparr>magic_number = MAGIC_NUMBER, sb_blocks = 5, inode_blocks = 1, inodes = 128\<rparr>,
           free_blocks = Some [False, False, True, False, True]\<rparr>, True)
   \<and> (\<exists>bm. Some [False, False, True, False, True] = Some bm \<and> length bm = blocks example_image
     \<and> (\<forall>b \<le> 1. \<not> bm ! b)
     \<and> (\<forall>b. 1 < b \<and> b < 5 \<longrightarrow> (bm ! b \<longleftrightarrow> b \<notin> set (used_blocks example_image))))"
  using fs_mount_bitmap [OF ex_mount [of "\<lambda>_. False"]] ex_mount [of "\<lambda>_. False"] by simp

text \<open>
  Claim C4 asks that a rejected mount leaves the file system structure unchanged.
  \<^verbatim>\<open>fs_mount\<close> stores the disk pointer before it reads and tests the superblock, and
  returns false without taking it back: on a disk whose block 0 is all zero (no
  magic number) the call returns false and the structure, which had no disk, now
  has the disk attached.
\<close>

theorem fs_mount_rejected_keeps_disk:
  "fs_mount junk unmounted_fs (Some example_disk) =
     Inr (unmounted_fs\<lparr>disk := Some example_disk\<rparr>, False)
   \<and> disk (unmounted_fs\<lparr>disk := Some example_disk\<rparr>) \<noteq> disk unmounted_fs"
  by (simp add: fs_mount_def unmounted_fs_def example_disk_def disk_read_def disk_sanity_check_def get_super_def MAGIC_NUMBER_def)

subsection \<open>fs\_format\<close>


lemma disk_write_ok: "0 \<le> fd d \<Longrightarrow> b < blocks d \<Longrightarrow>
  disk_write (Some d) b blk = (int BLOCK_SIZE, Some (d\<lparr>contents := (contents d)(b := blk)\<rparr>))"
  by (simp add: disk_write_def disk_sanity_check_def)

lemma disk_write_fail: "\<not> (0 \<le> fd d \<and> b < blocks d) \<Longrightarrow>
  disk_write (Some d) b blk = (DISK_FAILURE, Some d)"
  by (auto simp add: disk_write_def disk_sanity_check_def)

lemma disk_read_ok: "0 \<le> fd d \<Longrightarrow> b < blocks d \<Longrightarrow> disk_read (Some d) b = Some (contents d b)"
  by (simp add: disk_read_def disk_sanity_check_def)

lemma disk_read_fail: "\<not> (0 \<le> fd d \<and> b < blocks d) \<Longrightarrow> disk_read (Some d) b = None"
  by (auto simp add: disk_read_def disk_sanity_check_def)

lemma status_ne [simp]: "int BLOCK_SIZE \<noteq> DISK_FAILURE" "DISK_FAILURE \<noteq> 0" "int BLOCK_SIZE \<noteq> 0"
  by (simp_all add: BLOCK_SIZE_def DISK_FAILURE_def)

lemma read_status_simps [simp]: "read_status None = DISK_FAILURE" "read_status (Some b) = int BLOCK_SIZE"
  by (simp_all add: read_status_def)

lemma format_clear_stop: "\<not> i < n \<Longrightarrow> format_clear dsk data i n = (dsk, True)"
  by (subst format_clear.simps) simp

lemma format_clear_step: "i < n \<Longrightarrow> format_clear dsk data i n =
  (case disk_write dsk (i + 1) data of (st, d') \<Rightarrow>
     if st = DISK_FAILURE then (d', False) else format_clear d' data (i + 1) n)"
  by (subst format_clear.simps) simp

text \<open>When every block of the loop is on the disk the loop writes them all.\<close>

lemma format_clear_ok:
  "0 \<le> fd d \<Longrightarrow> n < blocks d \<Longrightarrow> i \<le> n \<Longrightarrow>
   \<exists>d'. format_clear (Some d) data i n = (Some d', True) \<and> fd d' = fd d \<and> blocks d' = blocks d
     \<and> (\<forall>b. contents d' b = (if i < b \<and> b \<le> n then data else contents d b))"
proof (induction "n - i" arbitrary: i d)
  case 0
  then show ?case by (auto simp add: format_clear_stop)
next
  case (Suc k)
  then have lt: "i < n" by simp
  let ?d1 = "d\<lparr>contents := (contents d)(i + 1 := data)\<rparr>"
  have w: "disk_write (Some d) (i + 1) data = (int BLOCK_SIZE, Some ?d1)"
    using Suc.prems lt by (simp add: disk_write_ok)
  have "k = n - (i + 1)" using Suc.hyps(2) by simp
  from Suc.hyps(1)[OF this, of ?d1] Suc.prems lt
  obtain d' where r: "format_clear (Some ?d1) data (i + 1) n = (Some d', True)" "fd d' = fd d"
    "blocks d' = blocks d" "\<forall>b. contents d' b = (if i + 1 < b \<and> b \<le> n then data else contents ?d1 b)"
    by auto
  have "\<forall>b. contents d' b = (if i < b \<and> b \<le> n then data else contents d b)"
    using r(4) lt by auto
  with r w lt show ?case by (simp add: format_clear_step)
qed

lemma format_clear_fail:
  "0 < n \<Longrightarrow> \<not> (0 \<le> fd d \<and> 1 < blocks d) \<Longrightarrow> format_clear (Some d) data 0 n = (Some d, False)"
  by (simp add: format_clear_step disk_write_fail)

lemma get_inode_zero_block: "valid (get_inode zero_block j) = 0"
  by (simp add: get_inode_def)

lemma inodes_size_bound: "1 < n \<Longrightarrow> (n + 9) div 10 < (n::nat)"
  by presburger

text \<open>
  Claim C7. \<^verbatim>\<open>fs_format\<close> fails and leaves the disk alone when the file system
  structure has a disk attached. Otherwise it succeeds if and only if every block
  write of the format, the inode blocks \<open>1 .. ceil(blocks/10)\<close> and block 0, succeeds
  on the disk (a write succeeds or fails by the number of the block alone); after a
  success block 0 holds the superblock of the claim, every slot of every inode
  block is invalid and the data region is as it was. The disk is one whose number
  of inodes fits the 32-bit field of the superblock.
\<close>

theorem fs_format_correct:
  assumes fits: "(blocks d + 9) div 10 * INODES_PER_BLOCK < U32"
  shows "\<exists>d' ok. fs_format fs (Some d) = Inr (Some d', ok)
     \<and> (disk fs \<noteq> None \<longrightarrow> \<not> ok \<and> d' = d)
     \<and> (disk fs = None \<longrightarrow>
          (ok \<longleftrightarrow> (\<forall>b \<in> set (map Suc [0..<(blocks d + 9) div 10] @ [0]).
                     fst (disk_write (Some d) b zero_block) \<noteq> DISK_FAILURE)))
     \<and> (ok \<longrightarrow>
          get_super (contents d' 0) =
            \<lparr>magic_number = MAGIC_NUMBER, sb_blocks = blocks d,
             inode_blocks = (blocks d + 9) div 10,
             inodes = (blocks d + 9) div 10 * INODES_PER_BLOCK\<rparr>
          \<and> (\<forall>i j. 1 \<le> i \<and> i \<le> (blocks d + 9) div 10 \<and> j < INODES_PER_BLOCK \<longrightarrow>
                 valid (get_inode (contents d' i) j) = 0)
          \<and> fd d' = fd d \<and> blocks d' = blocks d
          \<and> (\<forall>b. (blocks d + 9) div 10 < b \<longrightarrow> contents d' b = contents d b))"
proof (cases "disk fs = None")
  case False
  then obtain y where y: "disk fs = Some y" by auto
  then have "fs_format fs (Some d) = Inr (Some d, False)" by (simp add: fs_format_def)
  with y show ?thesis by (intro exI[of _ d] exI[of _ False]) simp
next
  case True
  let ?n = "(blocks d + 9) div 10"
  have assms: "blocks d < U32" using fits by (simp add: U32_def INODES_PER_BLOCK_def)
  have n64: "((blocks d + 9) mod U64) div 10 = ?n" using assms by (simp add: U32_def U64_def)
  show ?thesis
  proof (cases "0 \<le> fd d \<and> 1 < blocks d")
    case ok: True
    then have nlt: "?n < blocks d" by (simp add: inodes_size_bound)
    from format_clear_ok[of d ?n 0 zero_block] ok nlt
    obtain d1 where r: "format_clear (Some d) zero_block 0 ?n = (Some d1, True)" "fd d1 = fd d"
      "blocks d1 = blocks d" "\<forall>b. contents d1 b = (if 0 < b \<and> b \<le> ?n then zero_block else contents d b)"
      by auto
    let ?sb = "set32 (set32 (set32 (set32 zero_block 0 MAGIC_NUMBER) 1 (blocks d)) 2 ?n) 3 ((?n * INODES_PER_BLOCK) mod U64)"
    let ?d2 = "d1\<lparr>contents := (contents d1)(0 := ?sb)\<rparr>"
    have w: "disk_write (Some d1) 0 ?sb = (int BLOCK_SIZE, Some ?d2)"
      using r ok by (simp add: disk_write_ok)
    have rd: "disk_read (Some d) 0 = Some (contents d 0)" using ok by (simp add: disk_read_ok)
    have f: "fs_format fs (Some d) = Inr (Some ?d2, True)"
      using True rd r(1) w by (simp add: fs_format_def n64 Let_def)
    have nb: "?n * INODES_PER_BLOCK < U32" "?n < U32"
      using fits by (simp_all add: U32_def INODES_PER_BLOCK_def)
    then have nb64: "(?n * INODES_PER_BLOCK) mod U64 = ?n * INODES_PER_BLOCK"
      by (simp add: U32_def U64_def)
    have sup: "get_super ?sb = \<lparr>magic_number = MAGIC_NUMBER, sb_blocks = blocks d,
             inode_blocks = ?n, inodes = ?n * INODES_PER_BLOCK\<rparr>"
      using assms nb by (simp add: get_super_def get32_set32 nb64) (simp add: MAGIC_NUMBER_def U32_def)
    have wr: "\<forall>b \<in> set (map Suc [0..<?n] @ [0]). fst (disk_write (Some d) b zero_block) \<noteq> DISK_FAILURE"
      using ok nlt by (auto simp: disk_write_ok)
    have inv: "\<forall>i j. 1 \<le> i \<and> i \<le> ?n \<and> j < INODES_PER_BLOCK \<longrightarrow> valid (get_inode (contents ?d2 i) j) = 0"
      using r(4) by (auto simp: get_inode_zero_block)
    have rest: "\<forall>b. ?n < b \<longrightarrow> contents ?d2 b = contents d b" using r(4) by auto
    from f True sup wr inv rest r(2,3) show ?thesis
      by (intro exI[of _ ?d2] exI[of _ True]) simp
  next
    case bad: False
    show ?thesis
    proof (cases "0 \<le> fd d \<and> 0 < blocks d")
      case False
      then have rd: "disk_read (Some d) 0 = None" by (simp add: disk_read_fail)
      have f: "fs_format fs (Some d) = Inr (Some d, False)"
        using True rd by (simp add: fs_format_def Let_def)
      have "fst (disk_write (Some d) 0 zero_block) = DISK_FAILURE"
        using False by (simp add: disk_write_fail)
      with f True show ?thesis
        by (intro exI[of _ d] exI[of _ False]) simp
    next
      case one: True
      with bad have b1: "blocks d = 1" by auto
      have rd: "disk_read (Some d) 0 = Some (contents d 0)" using one by (simp add: disk_read_ok)
      have n1: "?n = 1" using b1 by simp
      have fc: "format_clear (Some d) zero_block 0 ?n = (Some d, False)"
        using bad n1 by (simp add: format_clear_fail)
      have f: "fs_format fs (Some d) = Inr (Some d, False)"
        using True rd fc by (simp add: fs_format_def n64 Let_def)
      have "fst (disk_write (Some d) (Suc 0) zero_block) = DISK_FAILURE"
        using bad b1 by (simp add: disk_write_fail)
      with f True n1 show ?thesis
        by (intro exI[of _ d] exI[of _ False]) simp
    qed
  qed
qed


text \<open>The hypothesis of \<open>fs_format_correct\<close> holds for the example disk.\<close>

theorem fs_format_correct_witness:
  "(blocks example_disk + 9) div 10 * INODES_PER_BLOCK < U32
   \<and> (\<exists>d' ok. fs_format unmounted_fs (Some example_disk) = Inr (Some d', ok)
     \<and> (disk unmounted_fs \<noteq> None \<longrightarrow> \<not> ok \<and> d' = example_disk)
     \<and> (disk unmounted_fs = None \<longrightarrow>
          (ok \<longleftrightarrow> (\<forall>b \<in> set (map Suc [0..<(blocks example_disk + 9) div 10] @ [0]).
                     fst (disk_write (Some example_disk) b zero_block) \<noteq> DISK_FAILURE)))
     \<and> (ok \<longrightarrow>
          get_super (contents d' 0) =
            \<lparr>magic_number = MAGIC_NUMBER, sb_blocks = blocks example_disk,
             inode_blocks = (blocks example_disk + 9) div 10,
             inodes = (blocks example_disk + 9) div 10 * INODES_PER_BLOCK\<rparr>
          \<and> (\<forall>i j. 1 \<le> i \<and> i \<le> (blocks example_disk + 9) div 10 \<and> j < INODES_PER_BLOCK \<longrightarrow>
                 valid (get_inode (contents d' i) j) = 0)
          \<and> fd d' = fd example_disk \<and> blocks d' = blocks example_disk
          \<and> (\<forall>b. (blocks example_disk + 9) div 10 < b \<longrightarrow> contents d' b = contents example_disk b)))"
proof -
  have h: "(blocks example_disk + 9) div 10 * INODES_PER_BLOCK < U32"
    by (simp add: example_disk_def INODES_PER_BLOCK_def U32_def)
  show ?thesis by (rule conjI [OF h fs_format_correct [OF h]])
qed


subsection \<open>Inodes in a block; fs\_create, fs\_remove, fs\_stat\<close>


lemma get32_set_words:
  "get32 (set_words b k vs) k' =
     (if k \<le> k' \<and> k' < k + length vs then (vs ! (k' - k)) mod U32 else get32 b k')"
proof (induction vs arbitrary: b k)
  case Nil
  then show ?case by simp
next
  case (Cons v vs)
  show ?case
    using Cons.IH[of "set32 b k v" "Suc k"]
    by (auto simp: get32_set32 nth_Cons')
qed

lemma get32_set_inode_other:
  "\<not> (8 * j \<le> k \<and> k < 8 * j + 8) \<Longrightarrow> get32 (set_inode b j nd) k = get32 b k"
  by (auto simp: set_inode_def get32_set32 get32_set_words POINTERS_PER_INODE_def)

lemma get_inode_set_inode_other:
  assumes "j' \<noteq> j"
  shows "get_inode (set_inode b j nd) j' = get_inode b j'"
proof -
  have "\<not> (8 * j \<le> 8 * j' + t \<and> 8 * j' + t < 8 * j + 8)" if "t < 8" for t
    using assms that by presburger
  then have "get32 (set_inode b j nd) (8 * j' + t) = get32 b (8 * j' + t)" if "t < 8" for t
    using that by (simp add: get32_set_inode_other)
  note g = this
  have "get32 (set_inode b j nd) (8 * j' + 2 + x) = get32 b (8 * j' + 2 + x)" if "x < 5" for x
    using g[of "2 + x"] that by (simp add: add.assoc)
  with g[of 0] g[of 1] g[of 7]
  show ?thesis
    by (simp add: get_inode_def POINTERS_PER_INODE_def)
qed

lemma get_inode_set_inode_same:
  assumes "length (direct nd) = POINTERS_PER_INODE"
  shows "get_inode (set_inode b j nd) j =
     \<lparr>valid = valid nd mod U32, isize = isize nd mod U32,
      direct = map (\<lambda>v. v mod U32) (direct nd), indirect = indirect nd mod U32\<rparr>"
proof -
  have d: "map (\<lambda>k. get32 (set_inode b j nd) (8 * j + 2 + k)) [0..<POINTERS_PER_INODE]
      = map (\<lambda>v. v mod U32) (direct nd)"
    by (rule nth_equalityI) (simp_all add: assms set_inode_def get32_set32 get32_set_words POINTERS_PER_INODE_def)
  have "get_inode (set_inode b j nd) j =
     \<lparr>valid = get32 (set_inode b j nd) (8 * j), isize = get32 (set_inode b j nd) (8 * j + 1),
      direct = map (\<lambda>v. v mod U32) (direct nd), indirect = get32 (set_inode b j nd) (8 * j + 7)\<rparr>"
    unfolding get_inode_def d ..
  then show ?thesis
    using assms
    by (simp add: set_inode_def get32_set32 get32_set_words POINTERS_PER_INODE_def)
qed

lemma get_inode_set_valid:
  "get_inode (set32 b (8 * j) v) j = (get_inode b j)\<lparr>valid := v mod U32\<rparr>"
  by (simp add: get_inode_def get32_set32)

lemma get_inode_set_valid_other:
  "j' \<noteq> j \<Longrightarrow> get_inode (set32 b (8 * j) v) j' = get_inode b j'"
proof -
  assume a: "j' \<noteq> j"
  have "8 * j' + t \<noteq> 8 * j" if "t < 8" for t using a that by presburger
  note g = this
  have "8 * j' + 2 + x \<noteq> 8 * j" if "x < 5" for x
    using g[of "2 + x"] that by (simp add: add.assoc)
  with g[of 0] g[of 1] g[of 7] show ?thesis
    by (simp add: get_inode_def get32_set32 POINTERS_PER_INODE_def)
qed

lemma get_inode_lt:
  "valid (get_inode b j) < U32" "isize (get_inode b j) < U32" "indirect (get_inode b j) < U32"
  "\<forall>p \<in> set (direct (get_inode b j)). p < U32"
  by (auto simp: get_inode_def get32_lt)

lemma find_invalid_stop: "\<not> j < INODES_PER_BLOCK \<Longrightarrow> find_invalid blk j = None"
  by (subst find_invalid.simps) simp

lemma find_invalid_step: "j < INODES_PER_BLOCK \<Longrightarrow> find_invalid blk j =
   (if get32 blk (8 * j) = 0 then Some j else find_invalid blk (j + 1))"
  by (subst find_invalid.simps) simp

lemma find_invalid_Some:
  "find_invalid blk j0 = Some j \<Longrightarrow>
   j0 \<le> j \<and> j < INODES_PER_BLOCK \<and> get32 blk (8 * j) = 0
   \<and> (\<forall>j'. j0 \<le> j' \<and> j' < j \<longrightarrow> get32 blk (8 * j') \<noteq> 0)"
proof (induction blk j0 rule: find_invalid.induct)
  case (1 blk j0)
  show ?case
  proof (cases "j0 < INODES_PER_BLOCK")
    case False
    with "1.prems" show ?thesis by (simp add: find_invalid_stop)
  next
    case True
    show ?thesis
    proof (cases "get32 blk (8 * j0) = 0")
      case z: True
      with True "1.prems" show ?thesis by (auto simp: find_invalid_step)
    next
      case nz: False
      with True "1.prems" have "find_invalid blk (j0 + 1) = Some j" by (simp add: find_invalid_step)
      from "1.IH"[OF True nz this]
      have r: "j0 + 1 \<le> j" "j < INODES_PER_BLOCK" "get32 blk (8 * j) = 0"
        "\<forall>j'. j0 + 1 \<le> j' \<and> j' < j \<longrightarrow> get32 blk (8 * j') \<noteq> 0" by auto
      have "\<forall>j'. j0 \<le> j' \<and> j' < j \<longrightarrow> get32 blk (8 * j') \<noteq> 0"
      proof (intro allI impI)
        fix j' assume "j0 \<le> j' \<and> j' < j"
        then show "get32 blk (8 * j') \<noteq> 0" using r(4) nz by (cases "j' = j0") auto
      qed
      with r show ?thesis by simp
    qed
  qed
qed

lemma find_invalid_None:
  "find_invalid blk j0 = None \<Longrightarrow> \<forall>j'. j0 \<le> j' \<and> j' < INODES_PER_BLOCK \<longrightarrow> get32 blk (8 * j') \<noteq> 0"
proof (induction blk j0 rule: find_invalid.induct)
  case (1 blk j0)
  show ?case
  proof (cases "j0 < INODES_PER_BLOCK")
    case False
    then show ?thesis by simp
  next
    case True
    with "1.prems" have nz: "get32 blk (8 * j0) \<noteq> 0" and r: "find_invalid blk (j0 + 1) = None"
      by (auto simp: find_invalid_step split: if_splits)
    from "1.IH"[OF True nz r]
    have h: "\<forall>j'. j0 + 1 \<le> j' \<and> j' < INODES_PER_BLOCK \<longrightarrow> get32 blk (8 * j') \<noteq> 0" .
    show ?thesis
    proof (intro allI impI)
      fix j' assume "j0 \<le> j' \<and> j' < INODES_PER_BLOCK"
      then show "get32 blk (8 * j') \<noteq> 0" using h nz by (cases "j' = j0") auto
    qed
  qed
qed

lemma create_from_stop: "\<not> i < n \<Longrightarrow> create_from fs n i = (fs, - 1)"
  by (subst create_from.simps) simp

lemma create_from_step: "i < n \<Longrightarrow> create_from fs n i =
        (case disk_read (disk fs) (i + 1) of
           None \<Rightarrow> (fs, - 1)
         | Some block \<Rightarrow>
             (case find_invalid block 0 of
                None \<Rightarrow> create_from fs n (i + 1)
              | Some j \<Rightarrow>
                  (case disk_write (disk fs) (i + 1) (set32 block (8 * j) 1) of
                     (st', d') \<Rightarrow>
                       if st' = DISK_FAILURE then (fs\<lparr>disk := d'\<rparr>, - 1)
                       else (fs\<lparr>disk := d'\<rparr>,
                             to_ssize ((i * INODES_PER_BLOCK + j) mod U64)))))"
  by (subst create_from.simps) simp

lemma to_ssize_small: "x < 2 ^ 63 \<Longrightarrow> to_ssize (x mod U64) = int x"
  by (simp add: to_ssize_def U64_def)

text \<open>The slot a successful create hands out.\<close>

lemma create_from_spec:
  assumes "create_from fs n i = (fs1, r)" "0 \<le> r" "disk fs = Some d" "n * INODES_PER_BLOCK < 2 ^ 63"
  shows "\<exists>i' j. i \<le> i' \<and> i' < n \<and> j < INODES_PER_BLOCK \<and> r = int (i' * INODES_PER_BLOCK + j)
     \<and> i' + 1 < blocks d \<and> 0 \<le> fd d
     \<and> get32 (contents d (i' + 1)) (8 * j) = 0
     \<and> (\<forall>j' < j. get32 (contents d (i' + 1)) (8 * j') \<noteq> 0)
     \<and> (\<forall>i''. i \<le> i'' \<and> i'' < i' \<longrightarrow> (\<forall>j' < INODES_PER_BLOCK. get32 (contents d (i'' + 1)) (8 * j') \<noteq> 0))
     \<and> fs1 = fs\<lparr>disk := Some (d\<lparr>contents := (contents d)(i' + 1 := set32 (contents d (i' + 1)) (8 * j) 1)\<rparr>)\<rparr>"
  using assms
proof (induction fs n i rule: create_from.induct)
  case (1 fs n i)
  show ?case
  proof (cases "i < n")
    case False
    with "1.prems" show ?thesis by (simp add: create_from_stop)
  next
    case True
    show ?thesis
    proof (cases "disk_read (disk fs) (i + 1)")
      case None
      with True "1.prems" show ?thesis by (simp add: create_from_step)
    next
      case (Some blk)
      from disk_read_Some[OF Some] "1.prems"(3)
      have blk: "blk = contents d (i + 1)" "i + 1 < blocks d" "0 \<le> fd d" by auto
      show ?thesis
      proof (cases "find_invalid blk 0")
        case None
        with True Some "1.prems" have c: "create_from fs n (i + 1) = (fs1, r)"
          by (simp add: create_from_step)
        from "1.IH"[OF True Some None c "1.prems"(2,3,4)]
        obtain i' j where r: "i + 1 \<le> i'" "i' < n" "j < INODES_PER_BLOCK" "r = int (i' * INODES_PER_BLOCK + j)"
          "i' + 1 < blocks d" "0 \<le> fd d" "get32 (contents d (i' + 1)) (8 * j) = 0"
          "\<forall>j' < j. get32 (contents d (i' + 1)) (8 * j') \<noteq> 0"
          "\<forall>i''. i + 1 \<le> i'' \<and> i'' < i' \<longrightarrow> (\<forall>j' < INODES_PER_BLOCK. get32 (contents d (i'' + 1)) (8 * j') \<noteq> 0)"
          "fs1 = fs\<lparr>disk := Some (d\<lparr>contents := (contents d)(i' + 1 := set32 (contents d (i' + 1)) (8 * j) 1)\<rparr>)\<rparr>"
          by blast
        from find_invalid_None[OF None] blk
        have full: "\<forall>j' < INODES_PER_BLOCK. get32 (contents d (i + 1)) (8 * j') \<noteq> 0" by simp
        have "\<forall>i''. i \<le> i'' \<and> i'' < i' \<longrightarrow> (\<forall>j' < INODES_PER_BLOCK. get32 (contents d (i'' + 1)) (8 * j') \<noteq> 0)"
        proof (rule allI, rule impI)
          fix i'' assume "i \<le> i'' \<and> i'' < i'"
          then show "\<forall>j' < INODES_PER_BLOCK. get32 (contents d (i'' + 1)) (8 * j') \<noteq> 0"
            using full r(9) by (cases "i'' = i") auto
        qed
        note ih = this
        show ?thesis
          apply (rule exI[of _ i'], rule exI[of _ j])
          using r ih by (simp add: fun_upd_def)
      next
        case (Some j)
        from find_invalid_Some[OF Some] blk
        have j: "j < INODES_PER_BLOCK" "get32 (contents d (i + 1)) (8 * j) = 0"
          "\<forall>j' < j. get32 (contents d (i + 1)) (8 * j') \<noteq> 0" by auto
        have w: "disk_write (disk fs) (i + 1) (set32 blk (8 * j) 1) =
           (int BLOCK_SIZE, Some (d\<lparr>contents := (contents d)(i + 1 := set32 blk (8 * j) 1)\<rparr>))"
          using blk "1.prems"(3) by (simp add: disk_write_ok)
        have small: "i * INODES_PER_BLOCK + j < 2 ^ 63"
        proof -
          have "i * INODES_PER_BLOCK + j < (i + 1) * INODES_PER_BLOCK" using j(1) by simp
          also have "\<dots> \<le> n * INODES_PER_BLOCK" using True
            by (intro mult_le_mono1) simp
          finally show ?thesis using "1.prems"(4) by simp
        qed
        from True \<open>disk_read (disk fs) (i + 1) = Some blk\<close> Some w "1.prems"(1)
        have "fs1 = fs\<lparr>disk := Some (d\<lparr>contents := (contents d)(i + 1 := set32 blk (8 * j) 1)\<rparr>)\<rparr>"
          and "r = int (i * INODES_PER_BLOCK + j)"
          by (simp_all add: create_from_step to_ssize_small[OF small])
        note fr = this
        show ?thesis
          apply (rule exI[of _ i], rule exI[of _ j])
          using fr j blk True by (simp add: fun_upd_def)
      qed
    qed
  qed
qed


lemma mounted_D:
  assumes "mounted fs"
  obtains d bm where "disk fs = Some d" "free_blocks fs = Some bm" "0 \<le> fd d" "length bm = blocks d"
    "inode_blocks (meta_data fs) < blocks d" "sb_blocks (meta_data fs) \<le> blocks d"
    "inode_blocks (meta_data fs) < 429496730"
proof -
  from assms obtain d bm where a: "disk fs = Some d" "free_blocks fs = Some bm" "0 \<le> fd d"
    "length bm = blocks d" "inode_blocks (meta_data fs) < blocks d" "sb_blocks (meta_data fs) \<le> blocks d"
    by (auto simp: mounted_def split: option.splits)
  from mounted_start[OF assms] have "inode_blocks (meta_data fs) < 429496730"
  proof -
    from assms have "inode_blocks (meta_data fs) = ((sb_blocks (meta_data fs) + 9) mod U32) div 10"
      by (auto simp: mounted_def split: option.splits)
    moreover have "((sb_blocks (meta_data fs) + 9) mod U32) < U32" by (simp add: U32_def)
    ultimately show ?thesis by (simp add: U32_def)
  qed
  with a that show ?thesis by blast
qed

lemma BLOCK_SIZE_pos [simp]: "0 < BLOCK_SIZE" "BLOCK_SIZE \<noteq> 0"
  by (simp_all add: BLOCK_SIZE_def)

lemma fs_load_inode_ok:
  assumes "disk fs = Some d" "0 \<le> fd d" "1 + n div INODES_PER_BLOCK < blocks d"
  shows "fs_load_inode fs n =
     (let node = get_inode (contents d (1 + n div INODES_PER_BLOCK)) (n mod INODES_PER_BLOCK)
      in if valid node \<noteq> 0 then Inr (Some node) else Inr None)"
  using assms by (simp add: fs_load_inode_def disk_read_ok Let_def)

lemma fs_save_inode_ok:
  assumes "disk fs = Some d" "0 \<le> fd d" "1 + n div INODES_PER_BLOCK < blocks d"
  shows "fs_save_inode fs n nd =
     Inr (fs\<lparr>disk := Some (d\<lparr>contents := (contents d)(1 + n div INODES_PER_BLOCK :=
        set_inode (contents d (1 + n div INODES_PER_BLOCK)) (n mod INODES_PER_BLOCK) nd)\<rparr>)\<rparr>, True)"
  using assms by (simp add: fs_save_inode_def disk_read_ok disk_write_ok Let_def)




lemma valid_get_inode: "valid (get_inode b j) = get32 b (8 * j)"
  by (simp add: get_inode_def)















subsection \<open>fs\_read and fs\_write on the example images\<close>


lemma indirect_fs_load:
  "fs_load_inode indirect_fs 0 =
     Inr (Some \<lparr>valid = 1, isize = 7 * 4096, direct = [3, 4, 5, 6, 7], indirect = 8\<rparr>)"
  by (simp add: fs_load_inode_def indirect_fs_def indirect_image_def disk_read_ok
      INODES_PER_BLOCK_def get_inode_set_inode_same POINTERS_PER_INODE_def U32_def)

text \<open>
  Claim C2 asks that every copy of the indirect loop of \<^verbatim>\<open>fs_read\<close> takes
  \<open>min(BLOCK_SIZE - offset, remaining)\<close> bytes from position \<open>offset\<close> of the block, as
  the direct loop of \<^verbatim>\<open>fs_read\<close> and both loops of \<^verbatim>\<open>fs_write\<close> do. The indirect loop
  of \<^verbatim>\<open>fs_read\<close> takes \<open>min(BLOCK_SIZE, remaining)\<close> bytes: a read of 4096 bytes from
  offset \<open>5 * 4096 + 1\<close> of a file of seven blocks copies 4096 bytes from position 1
  of the first indirect data block, one byte past the end of the block buffer.
\<close>

theorem fs_read_indirect_overread:
  "fs_read indirect_fs 0 zero_buffer 4096 (5 * 4096 + 1) = Inl OutOfBounds"
  by (simp add: fs_read_def indirect_fs_load U64_def BLOCK_SIZE_def POINTERS_PER_INODE_def
      read_direct.simps)
    (simp add: indirect_fs_def indirect_image_def disk_read_ok read_indirect.simps U64_def
      POINTERS_PER_INODE_def POINTERS_PER_BLOCK_def get32_set32 U32_def BLOCK_SIZE_def
      memcpy_from_block_def)

lemma full_fs_load:
  "fs_load_inode full_fs 0 =
     Inr (Some \<lparr>valid = 1, isize = 100, direct = [3, 0, 0, 0, 0], indirect = 0\<rparr>)"
  by (simp add: fs_load_inode_def full_fs_def example_image_def disk_read_ok
      INODES_PER_BLOCK_def get_inode_set_inode_same POINTERS_PER_INODE_def U32_def)

lemma full_fs_stat: "fs_stat full_fs 0 = Inr 100"
  by (simp add: fs_stat_def full_fs_load)

text \<open>
  Claim C10 says that \<^verbatim>\<open>fs_read\<close> returns normally only when the offset is at most
  the size. A read of 0 bytes at offset 4097 from an inode of 100 bytes returns 0.
\<close>

theorem fs_read_beyond_size_returns:
  "fs_stat full_fs 0 = Inr 100 \<and> fs_read full_fs 0 zero_buffer 0 4097 = Inr (0, zero_buffer)"
  by (simp add: full_fs_stat fs_read_def full_fs_load U64_def BLOCK_SIZE_def POINTERS_PER_INODE_def
      read_direct.simps to_ssize_def)

lemma read_direct_stop:
  "\<not> (i < POINTERS_PER_INODE \<and> direct inode ! i \<noteq> 0 \<and> bytes_read < len) \<Longrightarrow>
   read_direct fs inode data len i offset bytes_read block =
     Inr (None, data, i, offset, bytes_read, block)"
  by (subst read_direct.simps) auto

text \<open>
  Claim C10, amended. For a valid inode and an offset beyond its size the clamp
  \<open>min(length, size - offset)\<close> wraps around to \<open>min(length, 2^64 - (offset - size))\<close>.
  A read of 0 bytes then returns 0; a read of at least one byte from an inode that
  has no indirect block and no direct block at the offset copies nothing and fails
  the final assertion.
\<close>

theorem fs_read_offset_beyond_size:
  assumes "fs_load_inode fs n = Inr (Some nd)" "isize nd < offset" "offset < U64"
  shows "fs_read fs n data 0 offset = Inr (0, data)
    \<and> (0 < len \<and> indirect nd = 0
         \<and> (POINTERS_PER_INODE \<le> offset div BLOCK_SIZE \<or> direct nd ! (offset div BLOCK_SIZE) = 0)
        \<longrightarrow> min len ((isize nd + U64 - offset) mod U64) = min len (U64 - (offset - isize nd))
          \<and> fs_read fs n data len offset = Inl AssertionFailure)"
proof -
  have wrap: "(isize nd + U64 - offset) mod U64 = U64 - (offset - isize nd)"
    using assms(2,3) by simp
  have pos: "0 < U64 - (offset - isize nd)" using assms(2,3) by simp
  have a: "fs_read fs n data 0 offset = Inr (0, data)"
    using assms(1) by (simp add: fs_read_def read_direct_stop to_ssize_def)
  have b: "fs_read fs n data len offset = Inl AssertionFailure"
    if "0 < len" "indirect nd = 0"
       "POINTERS_PER_INODE \<le> offset div BLOCK_SIZE \<or> direct nd ! (offset div BLOCK_SIZE) = 0"
  proof -
    let ?len = "min len ((isize nd + U64 - offset) mod U64)"
    have l: "0 < ?len" using that(1) pos wrap by simp
    have "read_direct fs nd data ?len (offset div BLOCK_SIZE) (offset mod BLOCK_SIZE) 0 None
        = Inr (None, data, offset div BLOCK_SIZE, offset mod BLOCK_SIZE, 0, None)"
      using that(3) by (intro read_direct_stop) auto
    then show ?thesis
      using assms(1) that(2) l by (simp add: fs_read_def Let_def)
  qed
  from a b wrap show ?thesis by simp
qed

theorem fs_read_offset_beyond_size_witness:
  "fs_load_inode full_fs 0 =
     Inr (Some \<lparr>valid = 1, isize = 100, direct = [3, 0, 0, 0, 0], indirect = 0\<rparr>)
   \<and> (100 :: nat) < 4097 \<and> 4097 < U64 \<and> (0 :: nat) < 10
   \<and> fs_read full_fs 0 zero_buffer 10 4097 = Inl AssertionFailure"
proof -
  have h: "isize \<lparr>valid = 1, isize = 100, direct = [3, 0, 0, 0, 0], indirect = 0\<rparr> < 4097"
    "4097 < U64" by (simp_all add: U64_def)
  from fs_read_offset_beyond_size [OF full_fs_load h, of zero_buffer 10] full_fs_load h
  show ?thesis by (simp add: BLOCK_SIZE_def)
qed

subsection \<open>Allocation during fs\_expand\_file\<close>


lemma filter_upt_update:
  assumes "a \<le> b" "b < n" "n \<le> length bm" "bm ! b"
  shows "length (filter (\<lambda>i. bm[b := False] ! i) [a..<n]) + 1 = length (filter (\<lambda>i. bm ! i) [a..<n])"
proof -
  have split: "[a..<n] = [a..<b] @ b # [Suc b..<n]"
    using assms(1,2) by (metis le_add_diff_inverse upt_add_eq_append upt_conv_Cons less_imp_le_nat)
  have l: "filter (\<lambda>i. bm[b := False] ! i) [a..<b] = filter (\<lambda>i. bm ! i) [a..<b]"
    by (rule filter_cong) auto
  have r: "filter (\<lambda>i. bm[b := False] ! i) [Suc b..<n] = filter (\<lambda>i. bm ! i) [Suc b..<n]"
    by (rule filter_cong) auto
  show ?thesis using assms(2,3,4) by (simp add: split l r)
qed

lemma free_count_zero:
  "disk fs = Some d \<Longrightarrow> free_blocks fs = Some bm \<Longrightarrow>
   (free_count fs = 0) = (\<forall>i. inode_blocks (meta_data fs) + 1 \<le> i \<and> i < blocks d \<longrightarrow> \<not> bm ! i)"
  by (auto simp: free_count_def filter_empty_conv)

lemma mounted_bitmap_update:
  "mounted fs \<Longrightarrow> free_blocks fs = Some bm \<Longrightarrow> mounted (fs\<lparr>free_blocks := Some (bm[i := v])\<rparr>)"
  by (auto simp: mounted_def split: option.splits)

text \<open>The two outcomes of the allocator on a mounted file system.\<close>

lemma fs_allocate_cases:
  assumes "mounted fs"
  shows "(free_count fs = 0 \<and> fs_allocate_free_block fs = Inr (fs, - 1))
     \<or> (\<exists>b fs'. fs_allocate_free_block fs = Inr (fs', int b) \<and> allocs fs fs' [b]
           \<and> free_count fs' + 1 = free_count fs \<and> mounted fs')"
proof -
  from assms obtain d bm where d: "disk fs = Some d" and bm: "free_blocks fs = Some bm"
    and len: "length bm = blocks d" and ib: "inode_blocks (meta_data fs) < blocks d"
    by (auto simp: mounted_def split: option.splits)
  let ?s = "1 + inode_blocks (meta_data fs)"
  from alloc_scan_spec[OF bm, of "blocks d" ?s] len ib
  obtain r where r: "alloc_scan fs (blocks d) ?s = Inr r" "?s \<le> r" "r \<le> blocks d"
     "\<forall>j. ?s \<le> j \<and> j < r \<longrightarrow> \<not> bm ! j" "r < blocks d \<longrightarrow> bm ! r" by auto
  show ?thesis
  proof (cases "r < blocks d")
    case True
    let ?fs' = "fs\<lparr>free_blocks := Some (bm[r := False])\<rparr>"
    have a: "fs_allocate_free_block fs = Inr (?fs', int r)"
      using True r(1) d bm len
      by (simp add: fs_allocate_free_block_def disk_blocks_def mounted_start[OF assms] bitmap_set_def)
    have b: "allocs fs ?fs' [r]"
      using True r d bm len by (auto simp: allocs_def nth_list_update)
    have c: "free_count ?fs' + 1 = free_count fs"
      using filter_upt_update[of ?s r "blocks d" bm] True r d bm len
      by (simp add: free_count_def)
    from a b c mounted_bitmap_update[OF assms bm] show ?thesis by blast
  next
    case False
    with r(3) have "r = blocks d" by simp
    have "fs_allocate_free_block fs = Inr (fs, - 1)"
      using False r(1) d
      by (simp add: fs_allocate_free_block_def disk_blocks_def mounted_start[OF assms])
    moreover have "free_count fs = 0"
      using r(4) \<open>r = blocks d\<close> by (simp add: free_count_zero[OF d bm])
    ultimately show ?thesis by simp
  qed
qed

lemma allocs_refl: "mounted fs \<Longrightarrow> allocs fs fs []"
  by (auto simp: allocs_def mounted_def split: option.splits)

lemma allocs_Cons:
  assumes "allocs fs fs1 [b]" "allocs fs1 fs2 bs"
  shows "allocs fs fs2 (b # bs)"
proof -
  from assms obtain d bm bm1 bm2 where
    f: "disk fs = Some d" "free_blocks fs = Some bm" "free_blocks fs1 = Some bm1" "free_blocks fs2 = Some bm2"
    by (auto simp: allocs_def split: option.splits)
  from assms f have a: "disk fs1 = disk fs" "meta_data fs1 = meta_data fs" "length bm1 = length bm"
    "inode_blocks (meta_data fs) < b" "b < blocks d" "bm ! b" "length bm = blocks d"
    "\<forall>x < length bm. bm1 ! x = (bm ! x \<and> x \<noteq> b)"
    by (auto simp: allocs_def)
  from assms f a have c: "disk fs2 = disk fs" "meta_data fs2 = meta_data fs" "length bm2 = length bm"
    "distinct bs" "\<forall>x \<in> set bs. inode_blocks (meta_data fs) < x \<and> x < blocks d \<and> bm1 ! x"
    "\<forall>x < length bm. bm2 ! x = (bm1 ! x \<and> x \<notin> set bs)"
    by (auto simp: allocs_def)
  have nb: "b \<notin> set bs" using c(5) a(5,7,8) by auto
  have fr: "\<forall>x \<in> set bs. bm ! x" using c(5) a(7,8) by auto
  have upd: "\<forall>x < length bm. bm2 ! x = (bm ! x \<and> x \<notin> set (b # bs))"
    using c(6) a(8) by auto
  from f a c nb fr upd show ?thesis by (simp add: allocs_def)
qed

lemma allocs_mounted: "mounted fs \<Longrightarrow> allocs fs fs' bs \<Longrightarrow> mounted fs'"
  by (auto simp: allocs_def mounted_def split: option.splits)

lemma allocs_D:
  assumes "allocs fs fs' bs" "disk fs = Some d"
  shows "disk fs' = Some d" "meta_data fs' = meta_data fs" "distinct bs"
    "\<forall>b \<in> set bs. inode_blocks (meta_data fs) < b \<and> b < blocks d"
  using assms by (auto simp: allocs_def split: option.splits)

lemma put_list_Nil [simp]: "put_list xs i [] = xs"
  by (simp add: put_list_def)

lemma put_list_Cons: "i < length xs \<Longrightarrow> put_list (xs[i := b]) (Suc i) bs = put_list xs i (b # bs)"
  by (simp add: put_list_def take_Suc_conv_app_nth)

lemma length_put_list: "i + length bs \<le> length xs \<Longrightarrow> length (put_list xs i bs) = length xs"
  by (simp add: put_list_def)

lemma nth_put_list:
  "i + length bs \<le> length xs \<Longrightarrow> k < length xs \<Longrightarrow>
   put_list xs i bs ! k = (if i \<le> k \<and> k < i + length bs then bs ! (k - i) else xs ! k)"
  by (auto simp: put_list_def nth_append)

lemma expand_direct_stop:
  "\<not> (idx < POINTERS_PER_INODE \<and> dif \<noteq> 0) \<Longrightarrow> expand_direct fs node idx dif = Inr (fs, node, idx, dif)"
  by (subst expand_direct.simps) auto

lemma expand_direct_step:
  "idx < POINTERS_PER_INODE \<Longrightarrow> dif \<noteq> 0 \<Longrightarrow> expand_direct fs node idx dif =
        (case fs_allocate_free_block fs of
           Inl f \<Rightarrow> Inl f
         | Inr (fs', free_block_idx) \<Rightarrow>
             if free_block_idx \<noteq> - 1 then
               expand_direct fs'
                 (node\<lparr>direct := (direct node)[idx := nat free_block_idx mod U32]\<rparr>)
                 (idx + 1) (dif - 1)
             else Inr (fs', node, idx, dif))"
  by (subst expand_direct.simps) simp

text \<open>
  The direct loop of the expansion takes free blocks one after the other until the
  direct pointers, the demand or the free blocks run out.
\<close>

lemma expand_direct_spec:
  assumes "mounted fs" "disk fs = Some d" "blocks d \<le> U32" "length (direct nd) = POINTERS_PER_INODE"
  shows "\<exists>fs' bs. expand_direct fs nd idx dif =
        Inr (fs', nd\<lparr>direct := put_list (direct nd) idx bs\<rparr>, idx + length bs, dif - length bs)
     \<and> allocs fs fs' bs \<and> free_count fs' + length bs = free_count fs \<and> mounted fs'
     \<and> length bs = min (min (POINTERS_PER_INODE - idx) dif) (free_count fs)"
  using assms
proof (induction fs nd idx dif rule: expand_direct.induct)
  case (1 fs nd idx dif)
  show ?case
  proof (cases "idx < POINTERS_PER_INODE \<and> dif \<noteq> 0")
    case False
    then have "expand_direct fs nd idx dif = Inr (fs, nd, idx, dif)" by (rule expand_direct_stop)
    moreover have "min (min (POINTERS_PER_INODE - idx) dif) (free_count fs) = 0" using False by auto
    ultimately show ?thesis
      using allocs_refl[OF "1.prems"(1)] "1.prems"(1)
      by (intro exI[of _ fs] exI[of _ "[]"]) simp
  next
    case True
    from fs_allocate_cases[OF "1.prems"(1)] show ?thesis
    proof
      assume z: "free_count fs = 0 \<and> fs_allocate_free_block fs = Inr (fs, - 1)"
      with True have "expand_direct fs nd idx dif = Inr (fs, nd, idx, dif)"
        by (simp add: expand_direct_step)
      with z allocs_refl[OF "1.prems"(1)] "1.prems"(1) show ?thesis
        by (intro exI[of _ fs] exI[of _ "[]"]) simp
    next
      assume "\<exists>b fs'. fs_allocate_free_block fs = Inr (fs', int b) \<and> allocs fs fs' [b]
           \<and> free_count fs' + 1 = free_count fs \<and> mounted fs'"
      then obtain b fs1 where a: "fs_allocate_free_block fs = Inr (fs1, int b)"
        and al: "allocs fs fs1 [b]" and fc: "free_count fs1 + 1 = free_count fs" and m1: "mounted fs1"
        by blast
      from allocs_D[OF al "1.prems"(2)] have d1: "disk fs1 = Some d" and bb: "b < blocks d" by auto
      with "1.prems"(3) have bmod: "nat (int b) mod U32 = b" and bmod': "b mod U32 = b" by simp_all
      let ?nd1 = "nd\<lparr>direct := (direct nd)[idx := b]\<rparr>"
      have ne: "int b \<noteq> - 1" by simp
      have l1: "length (direct ?nd1) = POINTERS_PER_INODE" using "1.prems"(4) by simp
      note ih = "1.IH"[OF True a refl ne m1 d1 "1.prems"(3), unfolded bmod, OF l1]
      from ih obtain fs' bs where r:
        "expand_direct fs1 ?nd1 (idx + 1) (dif - 1) =
           Inr (fs', ?nd1\<lparr>direct := put_list (direct ?nd1) (idx + 1) bs\<rparr>, idx + 1 + length bs, dif - 1 - length bs)"
        "allocs fs1 fs' bs" "free_count fs' + length bs = free_count fs1" "mounted fs'"
        "length bs = min (min (POINTERS_PER_INODE - (idx + 1)) (dif - 1)) (free_count fs1)"
        by blast
      have step: "expand_direct fs nd idx dif = expand_direct fs1 ?nd1 (idx + 1) (dif - 1)"
        using True a by (simp add: expand_direct_step bmod')
      have pl: "put_list (direct ?nd1) (idx + 1) bs = put_list (direct nd) idx (b # bs)"
        using put_list_Cons[of idx "direct nd" b bs] True "1.prems"(4) by simp
      have e: "expand_direct fs nd idx dif =
         Inr (fs', nd\<lparr>direct := put_list (direct nd) idx (b # bs)\<rparr>, idx + length (b # bs), dif - length (b # bs))"
        unfolding step r(1) pl by simp
      have idx5: "idx < POINTERS_PER_INODE" and dif0: "0 < dif" using True by auto
      have len: "length (b # bs) = min (min (POINTERS_PER_INODE - idx) dif) (free_count fs)"
        unfolding length_Cons using r(5) fc idx5 dif0 by arith
      have cnt: "free_count fs' + length (b # bs) = free_count fs" using r(3) fc by simp
      show ?thesis
        apply (rule exI[of _ fs'], rule exI[of _ "b # bs"])
        using e allocs_Cons[OF al r(2)] cnt r(4) len by simp
    qed
  qed
qed


lemma expand_indirect_stop:
  "\<not> (idx < POINTERS_PER_BLOCK \<and> dif \<noteq> 0) \<Longrightarrow>
   expand_indirect fs blk idx dif = Inr (fs, blk, idx, dif)"
  by (subst expand_indirect.simps) auto

lemma expand_indirect_step:
  "idx < POINTERS_PER_BLOCK \<Longrightarrow> dif \<noteq> 0 \<Longrightarrow> expand_indirect fs blk idx dif =
        (case fs_allocate_free_block fs of
           Inl f \<Rightarrow> Inl f
         | Inr (fs', free_block_idx) \<Rightarrow>
             if free_block_idx \<noteq> - 1 then
               expand_indirect fs' (set32 blk idx (nat free_block_idx)) (idx + 1) (dif - 1)
             else Inr (fs', blk, idx, dif))"
  by (subst expand_indirect.simps) simp

text \<open>The indirect loop of the expansion does the same with the pointers of the block.\<close>

lemma expand_indirect_spec:
  assumes "mounted fs"
  shows "\<exists>fs' bs. expand_indirect fs blk idx dif =
        Inr (fs', set_words blk idx bs, idx + length bs, dif - length bs)
     \<and> allocs fs fs' bs \<and> free_count fs' + length bs = free_count fs \<and> mounted fs'
     \<and> length bs = min (min (POINTERS_PER_BLOCK - idx) dif) (free_count fs)"
  using assms
proof (induction fs blk idx dif rule: expand_indirect.induct)
  case (1 fs blk idx dif)
  show ?case
  proof (cases "idx < POINTERS_PER_BLOCK \<and> dif \<noteq> 0")
    case False
    then have "expand_indirect fs blk idx dif = Inr (fs, blk, idx, dif)" by (rule expand_indirect_stop)
    moreover have "min (min (POINTERS_PER_BLOCK - idx) dif) (free_count fs) = 0" using False by auto
    ultimately show ?thesis
      using allocs_refl[OF "1.prems"(1)] "1.prems"(1)
      by (intro exI[of _ fs] exI[of _ "[]"]) simp
  next
    case True
    from fs_allocate_cases[OF "1.prems"(1)] show ?thesis
    proof
      assume z: "free_count fs = 0 \<and> fs_allocate_free_block fs = Inr (fs, - 1)"
      with True have "expand_indirect fs blk idx dif = Inr (fs, blk, idx, dif)"
        by (simp add: expand_indirect_step)
      with z allocs_refl[OF "1.prems"(1)] "1.prems"(1) show ?thesis
        by (intro exI[of _ fs] exI[of _ "[]"]) simp
    next
      assume "\<exists>b fs'. fs_allocate_free_block fs = Inr (fs', int b) \<and> allocs fs fs' [b]
           \<and> free_count fs' + 1 = free_count fs \<and> mounted fs'"
      then obtain b fs1 where a: "fs_allocate_free_block fs = Inr (fs1, int b)"
        and al: "allocs fs fs1 [b]" and fc: "free_count fs1 + 1 = free_count fs" and m1: "mounted fs1"
        by blast
      have ne: "int b \<noteq> - 1" by simp
      have nb: "nat (int b) = b" by simp
      note ih = "1.IH"[OF True a refl ne m1, unfolded nb]
      from ih obtain fs' bs where r:
        "expand_indirect fs1 (set32 blk idx b) (idx + 1) (dif - 1) =
           Inr (fs', set_words (set32 blk idx b) (idx + 1) bs, idx + 1 + length bs, dif - 1 - length bs)"
        "allocs fs1 fs' bs" "free_count fs' + length bs = free_count fs1" "mounted fs'"
        "length bs = min (min (POINTERS_PER_BLOCK - (idx + 1)) (dif - 1)) (free_count fs1)"
        by blast
      have step: "expand_indirect fs blk idx dif = expand_indirect fs1 (set32 blk idx b) (idx + 1) (dif - 1)"
        using True a by (simp add: expand_indirect_step)
      have e: "expand_indirect fs blk idx dif =
         Inr (fs', set_words blk idx (b # bs), idx + length (b # bs), dif - length (b # bs))"
        unfolding step r(1) by simp
      have idx5: "idx < POINTERS_PER_BLOCK" and dif0: "0 < dif" using True by auto
      have len: "length (b # bs) = min (min (POINTERS_PER_BLOCK - idx) dif) (free_count fs)"
        unfolding length_Cons using r(5) fc idx5 dif0 by arith
      have cnt: "free_count fs' + length (b # bs) = free_count fs" using r(3) fc by simp
      show ?thesis
        apply (rule exI[of _ fs'], rule exI[of _ "b # bs"])
        using e allocs_Cons[OF al r(2)] cnt r(4) len by simp
    qed
  qed
qed


lemma allocs_append:
  assumes "allocs fs fs1 as" "allocs fs1 fs2 bs"
  shows "allocs fs fs2 (as @ bs)"
proof -
  from assms obtain d bm bm1 bm2 where
    f: "disk fs = Some d" "free_blocks fs = Some bm" "free_blocks fs1 = Some bm1" "free_blocks fs2 = Some bm2"
    by (auto simp: allocs_def split: option.splits)
  from assms f have a: "disk fs1 = disk fs" "meta_data fs1 = meta_data fs" "length bm1 = length bm"
    "distinct as" "\<forall>x \<in> set as. inode_blocks (meta_data fs) < x \<and> x < blocks d \<and> bm ! x"
    "length bm = blocks d"
    "\<forall>x < length bm. bm1 ! x = (bm ! x \<and> x \<notin> set as)"
    by (auto simp: allocs_def)
  from assms f a have c: "disk fs2 = disk fs" "meta_data fs2 = meta_data fs" "length bm2 = length bm"
    "distinct bs" "\<forall>x \<in> set bs. inode_blocks (meta_data fs) < x \<and> x < blocks d \<and> bm1 ! x"
    "\<forall>x < length bm. bm2 ! x = (bm1 ! x \<and> x \<notin> set bs)"
    by (auto simp: allocs_def)
  have dj: "set as \<inter> set bs = {}" using c(5) a(6,7) by auto
  have fr: "\<forall>x \<in> set bs. bm ! x" using c(5) a(6,7) by auto
  have upd: "\<forall>x < length bm. bm2 ! x = (bm ! x \<and> x \<notin> set (as @ bs))"
    using c(6) a(7) by auto
  have rng: "\<forall>x \<in> set (as @ bs). inode_blocks (meta_data fs) < x \<and> x < blocks d \<and> bm ! x"
    using a(5) c(5) fr by auto
  have dst: "distinct (as @ bs)" using a(4) c(4) dj by simp
  from f a(1,2,3,6) c(1,2,3) rng dst upd show ?thesis by (simp add: allocs_def)
qed

lemma allocs_Nil_eq:
  assumes "allocs fs fs' []"
  shows "fs' = fs"
proof -
  from assms obtain bm bm' where f: "free_blocks fs = Some bm" "free_blocks fs' = Some bm'"
    "length bm' = length bm" "\<forall>x < length bm. bm' ! x = bm ! x"
    "disk fs' = disk fs" "meta_data fs' = meta_data fs"
    by (auto simp: allocs_def split: option.splits)
  then have "bm' = bm" by (intro nth_equalityI) auto
  with f show ?thesis by (intro FileSystem.equality) simp_all
qed

lemma fs_allocate_release:
  assumes "mounted fs" "fs_allocate_free_block fs = Inr (fs1, int b)"
  shows "fs_release_free_block fs1 b = Inr fs"
proof -
  from assms(1) obtain d bm where d: "disk fs = Some d" and bm: "free_blocks fs = Some bm"
    and len: "length bm = blocks d" and ib: "inode_blocks (meta_data fs) < blocks d"
    by (auto simp: mounted_def split: option.splits)
  let ?s = "1 + inode_blocks (meta_data fs)"
  from alloc_scan_spec[OF bm, of "blocks d" ?s] len ib
  obtain r where r: "alloc_scan fs (blocks d) ?s = Inr r" "r \<le> blocks d" "r < blocks d \<longrightarrow> bm ! r" by auto
  have rb: "r < blocks d"
  proof (rule ccontr)
    assume "\<not> r < blocks d"
    then have "fs_allocate_free_block fs = Inr (fs, - 1)"
      using r(1) d by (simp add: fs_allocate_free_block_def disk_blocks_def mounted_start[OF assms(1)])
    with assms(2) show False by simp
  qed
  have "fs_allocate_free_block fs = Inr (fs\<lparr>free_blocks := Some (bm[r := False])\<rparr>, int r)"
    using rb r(1) d bm len
    by (simp add: fs_allocate_free_block_def disk_blocks_def mounted_start[OF assms(1)] bitmap_set_def)
  with assms(2) have e: "fs1 = fs\<lparr>free_blocks := Some (bm[r := False])\<rparr>" "b = r" by auto
  have "bm[r := True] = bm" using r(3) rb by (simp add: list_update_same_conv len)
  then have "fs\<lparr>free_blocks := Some (bm[r := True])\<rparr> = fs" using bm by simp
  then show ?thesis using e rb len
    by (simp add: fs_release_free_block_def bitmap_get_def bitmap_set_def)
qed

lemma block_used_allocs:
  "block_used fs b \<Longrightarrow> allocs fs fs' bs \<Longrightarrow> block_used fs' b \<and> b \<notin> set bs"
  by (auto simp: block_used_def allocs_def split: option.splits)

lemma block_used_new:
  "allocs fs fs' bs \<Longrightarrow> b \<in> set bs \<Longrightarrow> block_used fs' b"
  by (auto simp: block_used_def allocs_def split: option.splits)

lemma block_used_disk [simp]:
  "blocks d' = blocks d \<Longrightarrow> disk fs = Some d \<Longrightarrow> block_used (fs\<lparr>disk := Some d'\<rparr>) b = block_used fs b"
  by (simp add: block_used_def split: option.splits)

lemma ptr_array_disk [simp]:
  "blocks d' = blocks d \<Longrightarrow> disk fs = Some d \<Longrightarrow> ptr_array (fs\<lparr>disk := Some d'\<rparr>) xs m = ptr_array fs xs m"
  by (simp add: ptr_array_def)

lemma ptr_array_iff:
  "ptr_array fs xs m =
     (m \<le> length xs \<and> (\<forall>k < m. block_used fs (xs ! k)) \<and> (\<forall>k. m \<le> k \<and> k < length xs \<longrightarrow> xs ! k = 0))"
proof
  assume a: "ptr_array fs xs m"
  then have m: "m \<le> length xs"
    and h: "\<And>k. k < length xs \<Longrightarrow> (if k < m then block_used fs (xs ! k) else xs ! k = 0)"
    by (auto simp: ptr_array_def)
  have "\<forall>k < m. block_used fs (xs ! k)"
  proof (intro allI impI)
    fix k assume "k < m"
    with h[of k] m show "block_used fs (xs ! k)" by simp
  qed
  moreover have "\<forall>k. m \<le> k \<and> k < length xs \<longrightarrow> xs ! k = 0"
  proof (intro allI impI)
    fix k assume "m \<le> k \<and> k < length xs"
    with h[of k] show "xs ! k = 0" by simp
  qed
  ultimately show "m \<le> length xs \<and> (\<forall>k < m. block_used fs (xs ! k)) \<and> (\<forall>k. m \<le> k \<and> k < length xs \<longrightarrow> xs ! k = 0)"
    using m by simp
next
  assume "m \<le> length xs \<and> (\<forall>k < m. block_used fs (xs ! k)) \<and> (\<forall>k. m \<le> k \<and> k < length xs \<longrightarrow> xs ! k = 0)"
  then show "ptr_array fs xs m" by (simp add: ptr_array_def)
qed

lemma ptr_array_allocs:
  "ptr_array fs xs m \<Longrightarrow> allocs fs fs' bs \<Longrightarrow> ptr_array fs' xs m"
  using block_used_allocs[of fs _ fs' bs] by (auto simp: ptr_array_iff)

lemma ptr_array_put:
  assumes "ptr_array fs xs m" "allocs fs fs' bs" "m + length bs \<le> length xs"
  shows "ptr_array fs' (put_list xs m bs) (m + length bs)"
proof -
  have "\<forall>k \<in> {0..<length xs}. if k < m + length bs then block_used fs' (put_list xs m bs ! k)
          else put_list xs m bs ! k = 0"
  proof
    fix k assume "k \<in> {0..<length xs}"
    then have k: "k < length xs" by simp
    consider "k < m" | "m \<le> k" "k < m + length bs" | "m + length bs \<le> k" by linarith
    then show "if k < m + length bs then block_used fs' (put_list xs m bs ! k)
          else put_list xs m bs ! k = 0"
    proof cases
      case 1
      with assms k have "block_used fs (xs ! k)" by (simp add: ptr_array_iff)
      with block_used_allocs[OF _ assms(2)] 1 k assms(3) show ?thesis
        by (simp add: nth_put_list)
    next
      case 2
      then have "bs ! (k - m) \<in> set bs" by simp
      with block_used_new[OF assms(2)] 2 k assms(3) show ?thesis
        by (simp add: nth_put_list)
    next
      case 3
      with assms k have "xs ! k = 0" by (simp add: ptr_array_iff)
      with 3 k assms(3) show ?thesis by (simp add: nth_put_list)
    qed
  qed
  with assms(3) show ?thesis by (simp add: ptr_array_def length_put_list)
qed

lemma block_used_nonzero: "block_used fs b \<Longrightarrow> b \<noteq> 0"
  by (auto simp: block_used_def split: option.splits)

lemma ptr_array_nth:
  "ptr_array fs xs m \<Longrightarrow> k < length xs \<Longrightarrow> (xs ! k \<noteq> 0) = (k < m)"
  using block_used_nonzero[of fs "xs ! k"] by (cases "k < m") (simp_all add: ptr_array_iff)

lemma ptr_array_used:
  "ptr_array fs xs m \<Longrightarrow> k < m \<Longrightarrow> block_used fs (xs ! k)"
  by (simp add: ptr_array_iff)

lemma takeWhile_take:
  "m \<le> length xs \<Longrightarrow> (\<forall>k < length xs. P (xs ! k) = (k < m)) \<Longrightarrow> takeWhile P xs = take m xs"
proof (induction xs arbitrary: m)
  case Nil
  then show ?case by simp
next
  case (Cons x xs)
  show ?case
  proof (cases m)
    case 0
    with Cons.prems(2) have "\<not> P x" by auto
    with 0 show ?thesis by simp
  next
    case (Suc m')
    with Cons.prems(2) have px: "P x" by auto
    have "\<forall>k < length xs. P (xs ! k) = (k < m')"
    proof (intro allI impI)
      fix k assume "k < length xs"
      with Cons.prems(2)[rule_format, of "Suc k"] Suc show "P (xs ! k) = (k < m')" by simp
    qed
    with Cons.IH[of m'] Cons.prems(1) Suc px show ?thesis by simp
  qed
qed

lemma ptr_array_pointer_list:
  assumes "ptr_array fs xs m"
  shows "pointer_list xs = take m xs"
  unfolding pointer_list_def
proof (rule takeWhile_take)
  show "m \<le> length xs" using assms by (simp add: ptr_array_iff)
  show "\<forall>k < length xs. (xs ! k \<noteq> 0) = (k < m)" using ptr_array_nth[OF assms] by simp
qed

lemma take_put_list: "m \<le> length xs \<Longrightarrow> take (m + length bs) (put_list xs m bs) = take m xs @ bs"
  by (simp add: put_list_def)

lemma map_get32_set_words:
  assumes "i + length bs \<le> N" "\<forall>b \<in> set bs. b < U32"
  shows "map (get32 (set_words blk i bs)) [0..<N] = put_list (map (get32 blk) [0..<N]) i bs"
proof (rule nth_equalityI)
  show "length (map (get32 (set_words blk i bs)) [0..<N]) = length (put_list (map (get32 blk) [0..<N]) i bs)"
    using assms(1) by (simp add: length_put_list)
next
  fix k assume "k < length (map (get32 (set_words blk i bs)) [0..<N])"
  then have k: "k < N" by simp
  have "bs ! (k - i) mod U32 = bs ! (k - i)" if "i \<le> k \<and> k < i + length bs"
  proof -
    from that have "k - i < length bs" by linarith
    then have "bs ! (k - i) \<in> set bs" by (rule nth_mem)
    with assms(2) show ?thesis by simp
  qed
  with k assms(1) show "map (get32 (set_words blk i bs)) [0..<N] ! k = put_list (map (get32 blk) [0..<N]) i bs ! k"
    by (simp add: get32_set_words nth_put_list)
qed


lemma mounted_fd: "mounted fs \<Longrightarrow> disk fs = Some d \<Longrightarrow> 0 \<le> fd d"
  by (auto simp: mounted_def split: option.splits)

lemma Inode_indirect_zero: "indirect nd = 0 \<Longrightarrow> nd\<lparr>indirect := 0\<rparr> = nd"
  by simp

lemma expand_indirect_part_direct:
  "idx0 < POINTERS_PER_INODE \<Longrightarrow> expand_indirect_part fs nd idx0 dif = Inr (fs, nd, dif)"
  by (simp add: expand_indirect_part_def)

text \<open>The inode has an indirect block already.\<close>

lemma expand_indirect_part_old:
  assumes m: "mounted fs" and d: "disk fs = Some d" and i: "POINTERS_PER_INODE \<le> idx0"
    and nz: "indirect nd \<noteq> 0" and rng: "indirect nd < blocks d"
  shows "\<exists>fs2 bs. expand_indirect_part fs nd idx0 dif =
       Inr (fs2\<lparr>disk := Some (d\<lparr>contents := (contents d)(indirect nd :=
              set_words (contents d (indirect nd)) (idx0 - POINTERS_PER_INODE) bs)\<rparr>)\<rparr>, nd, dif - length bs)
     \<and> allocs fs fs2 bs \<and> free_count fs2 + length bs = free_count fs \<and> mounted fs2
     \<and> length bs = min (min (POINTERS_PER_BLOCK - (idx0 - POINTERS_PER_INODE)) dif) (free_count fs)"
proof -
  let ?blk = "contents d (indirect nd)"
  have rd: "disk_read (disk fs) (indirect nd) = Some ?blk"
    using d rng mounted_fd[OF m d] by (simp add: disk_read_ok)
  from expand_indirect_spec[OF m, of ?blk "idx0 - POINTERS_PER_INODE" dif]
  obtain fs2 bs where r: "expand_indirect fs ?blk (idx0 - POINTERS_PER_INODE) dif =
        Inr (fs2, set_words ?blk (idx0 - POINTERS_PER_INODE) bs, idx0 - POINTERS_PER_INODE + length bs, dif - length bs)"
     "allocs fs fs2 bs" "free_count fs2 + length bs = free_count fs" "mounted fs2"
     "length bs = min (min (POINTERS_PER_BLOCK - (idx0 - POINTERS_PER_INODE)) dif) (free_count fs)"
    by blast
  from allocs_D[OF r(2) d] have d2: "disk fs2 = Some d" by simp
  have w: "disk_write (disk fs2) (indirect nd) (set_words ?blk (idx0 - POINTERS_PER_INODE) bs) =
      (int BLOCK_SIZE, Some (d\<lparr>contents := (contents d)(indirect nd :=
              set_words ?blk (idx0 - POINTERS_PER_INODE) bs)\<rparr>))"
    using d2 rng mounted_fd[OF m d] by (simp add: disk_write_ok)
  have "expand_indirect_part fs nd idx0 dif =
       Inr (fs2\<lparr>disk := Some (d\<lparr>contents := (contents d)(indirect nd :=
              set_words ?blk (idx0 - POINTERS_PER_INODE) bs)\<rparr>)\<rparr>, nd, dif - length bs)"
    using i nz rd r(1) w by (simp add: expand_indirect_part_def Let_def)
  with r show ?thesis by blast
qed

text \<open>
  The inode has no indirect block yet. When nothing can be put into a new indirect
  block, the block is given back and the call changes nothing.
\<close>

lemma expand_indirect_part_new:
  assumes m: "mounted fs" and d: "disk fs = Some d" and u: "blocks d \<le> U32"
    and z: "indirect nd = 0"
  shows "if free_count fs < 2 \<or> dif = 0
     then expand_indirect_part fs nd POINTERS_PER_INODE dif = Inr (fs, nd, dif)
     else (\<exists>b bs fs2. expand_indirect_part fs nd POINTERS_PER_INODE dif =
            Inr (fs2\<lparr>disk := Some (d\<lparr>contents := (contents d)(b := set_words zero_block 0 bs)\<rparr>)\<rparr>,
                 nd\<lparr>indirect := b\<rparr>, dif - length bs)
          \<and> allocs fs fs2 (b # bs) \<and> free_count fs2 + 1 + length bs = free_count fs \<and> mounted fs2
          \<and> length bs = min (min POINTERS_PER_BLOCK dif) (free_count fs - 1) \<and> bs \<noteq> [])"
proof -
  from fs_allocate_cases[OF m] show ?thesis
  proof
    assume a: "free_count fs = 0 \<and> fs_allocate_free_block fs = Inr (fs, - 1)"
    then have "expand_indirect_part fs nd POINTERS_PER_INODE dif = Inr (fs, nd, dif)"
      using z by (simp add: expand_indirect_part_def Let_def)
    with a show ?thesis by simp
  next
    assume "\<exists>b fs'. fs_allocate_free_block fs = Inr (fs', int b) \<and> allocs fs fs' [b]
           \<and> free_count fs' + 1 = free_count fs \<and> mounted fs'"
    then obtain b fs1 where a: "fs_allocate_free_block fs = Inr (fs1, int b)"
      and al: "allocs fs fs1 [b]" and fc: "free_count fs1 + 1 = free_count fs" and m1: "mounted fs1"
      by blast
    from allocs_D[OF al d] have d1: "disk fs1 = Some d" and bb: "b < blocks d"
      and b0: "inode_blocks (meta_data fs) < b" by auto
    then have bnz: "b \<noteq> 0" by simp
    from bb u have bmod: "b mod U32 = b" by simp
    have rd: "disk_read (disk fs1) b = Some (contents d b)"
      using d1 bb mounted_fd[OF m d] by (simp add: disk_read_ok)
    from expand_indirect_spec[OF m1, of zero_block 0 dif]
    obtain fs2 bs where r: "expand_indirect fs1 zero_block 0 dif =
        Inr (fs2, set_words zero_block 0 bs, 0 + length bs, dif - length bs)"
     "allocs fs1 fs2 bs" "free_count fs2 + length bs = free_count fs1" "mounted fs2"
     "length bs = min (min (POINTERS_PER_BLOCK - 0) dif) (free_count fs1)"
      by blast
    have pre: "expand_indirect_part fs nd POINTERS_PER_INODE dif =
       (if length bs = 0 then
          (case fs_release_free_block fs2 b of Inl f \<Rightarrow> Inl f
           | Inr fs3 \<Rightarrow> Inr (fs3, nd\<lparr>indirect := b, indirect := 0\<rparr>, dif - length bs))
        else (case disk_write (disk fs2) b (set_words zero_block 0 bs) of
                (st, d') \<Rightarrow> if st = 0 then Inl ExitFailure
                   else Inr (fs2\<lparr>disk := d'\<rparr>, nd\<lparr>indirect := b\<rparr>, dif - length bs)))"
      using z a bnz bmod rd r(1) by (simp add: expand_indirect_part_def Let_def)
    show ?thesis
    proof (cases "bs = []")
      case True
      with r(2) have "fs2 = fs1" by (simp add: allocs_Nil_eq)
      with fs_allocate_release[OF m a] have "fs_release_free_block fs2 b = Inr fs" by simp
      with pre True z have e: "expand_indirect_part fs nd POINTERS_PER_INODE dif = Inr (fs, nd, dif)"
        by simp
      from True r(5) fc have "free_count fs < 2 \<or> dif = 0"
        by (auto simp: POINTERS_PER_BLOCK_def min_def split: if_splits)
      with e show ?thesis by simp
    next
      case False
      from allocs_D[OF r(2) d1] have d2: "disk fs2 = Some d" by simp
      have w: "disk_write (disk fs2) b (set_words zero_block 0 bs) =
         (int BLOCK_SIZE, Some (d\<lparr>contents := (contents d)(b := set_words zero_block 0 bs)\<rparr>))"
        using d2 bb mounted_fd[OF m d] by (simp add: disk_write_ok)
      from pre False w have e: "expand_indirect_part fs nd POINTERS_PER_INODE dif =
            Inr (fs2\<lparr>disk := Some (d\<lparr>contents := (contents d)(b := set_words zero_block 0 bs)\<rparr>)\<rparr>,
                 nd\<lparr>indirect := b\<rparr>, dif - length bs)" by simp
      from False have "0 < length bs" by simp
      with r(5) fc have c: "\<not> (free_count fs < 2 \<or> dif = 0)" by arith
      have len: "length bs = min (min POINTERS_PER_BLOCK dif) (free_count fs - 1)"
        using r(5) fc by simp
      have cnt: "free_count fs2 + 1 + length bs = free_count fs" using r(3) fc by simp
      show ?thesis
        apply (simp only: c if_False)
        apply (rule exI[of _ b], rule exI[of _ bs], rule exI[of _ fs2])
        using e allocs_Cons[OF al r(2)] cnt r(4) len False by simp
    qed
  qed
qed

lemma nblocks_mult [simp]: "nblocks (k * BLOCK_SIZE) = k"
  by (simp add: nblocks_def BLOCK_SIZE_def)

lemma nblocks_mono: "a \<le> b \<Longrightarrow> nblocks a \<le> nblocks b"
  by (simp add: nblocks_def div_le_mono)

lemma nblocks_max: "nblocks (max a b) = max (nblocks a) (nblocks b)"
proof (cases "a \<le> b")
  case True
  from nblocks_mono[OF this] True show ?thesis by (simp add: max_absorb2)
next
  case False
  then have "b \<le> a" by simp
  from nblocks_mono[OF this] \<open>b \<le> a\<close> show ?thesis by (simp add: max_absorb1)
qed

lemma le_nblocks_mult: "s \<le> nblocks s * BLOCK_SIZE"
proof -
  have "(s + 4095) div 4096 * 4096 + (s + 4095) mod 4096 = s + 4095"
    by (rule div_mult_mod_eq)
  moreover have "(s + 4095) mod 4096 < (4096::nat)" by simp
  ultimately have "s \<le> (s + 4095) div 4096 * 4096" by linarith
  then show ?thesis by (simp add: nblocks_def BLOCK_SIZE_def)
qed

lemma nblocks_le_D: "nblocks s \<le> k \<Longrightarrow> s \<le> k * BLOCK_SIZE"
  using le_nblocks_mult[of s] mult_le_mono1[of "nblocks s" k BLOCK_SIZE] by linarith

lemma capacity_U32: "(POINTERS_PER_INODE + POINTERS_PER_BLOCK) * BLOCK_SIZE + BLOCK_SIZE \<le> U32"
  by (simp add: POINTERS_PER_INODE_def POINTERS_PER_BLOCK_def BLOCK_SIZE_def U32_def)

lemma UPPER_ROUND_U32:
  assumes "nblocks s \<le> POINTERS_PER_INODE + POINTERS_PER_BLOCK"
  shows "UPPER_ROUND U32 s BLOCK_SIZE = nblocks s" "s + BLOCK_SIZE \<le> U32"
proof -
  from nblocks_le_D[OF assms] capacity_U32 show b: "s + BLOCK_SIZE \<le> U32" by linarith
  then have "s + (BLOCK_SIZE - 1) < U32" by (simp add: BLOCK_SIZE_def)
  then show "UPPER_ROUND U32 s BLOCK_SIZE = nblocks s" by (simp add: UPPER_ROUND_def nblocks_def)
qed

lemma UPPER_ROUND_U64: "s + BLOCK_SIZE \<le> U64 \<Longrightarrow> UPPER_ROUND U64 s BLOCK_SIZE = nblocks s"
proof -
  assume "s + BLOCK_SIZE \<le> U64"
  then have "s + (BLOCK_SIZE - 1) < U64" by (simp add: BLOCK_SIZE_def)
  then show ?thesis by (simp add: UPPER_ROUND_def nblocks_def)
qed

text \<open>The size that the expansion stores when the inode has got \<open>nb'\<close> of \<open>nbn\<close> blocks.\<close>

lemma final_size:
  assumes "nb' \<le> nblocks new_size" "nb' \<le> POINTERS_PER_INODE + POINTERS_PER_BLOCK"
  defines "s \<equiv> (if nblocks new_size - nb' \<noteq> 0
      then ((nblocks new_size - (nblocks new_size - nb')) * BLOCK_SIZE) mod U64 else new_size) mod U32"
  shows "s = (if nb' = nblocks new_size then new_size else nb' * BLOCK_SIZE)" "nblocks s = nb'"
proof -
  have c1: "nb' * BLOCK_SIZE < U32"
    using mult_le_mono1[OF assms(2), of BLOCK_SIZE] capacity_U32 BLOCK_SIZE_pos(1) by linarith
  have "U32 \<le> U64" by (simp add: U32_def U64_def)
  with c1 have c2: "nb' * BLOCK_SIZE < U64" by linarith
  note c = c1 c2
  show e: "s = (if nb' = nblocks new_size then new_size else nb' * BLOCK_SIZE)"
  proof (cases "nb' = nblocks new_size")
    case True
    with assms(2) have "new_size + BLOCK_SIZE \<le> U32" using UPPER_ROUND_U32(2) by simp
    with BLOCK_SIZE_pos(1) have "new_size < U32" by linarith
    then have "new_size mod U32 = new_size" by simp
    with True show ?thesis by (simp add: s_def)
  next
    case False
    with assms(1) have "nblocks new_size - (nblocks new_size - nb') = nb'" by simp
    with False assms(1) c show ?thesis by (simp add: s_def)
  qed
  show "nblocks s = nb'" by (simp add: e)
qed

lemma wf_inodeI:
  assumes "disk fs = Some d" "length (direct nd) = POINTERS_PER_INODE"
    "nblocks (isize nd) = nb" "nb \<le> POINTERS_PER_INODE + POINTERS_PER_BLOCK"
    "ptr_array fs (direct nd) (min nb POINTERS_PER_INODE)"
    "POINTERS_PER_INODE < nb \<Longrightarrow> block_used fs (indirect nd)"
    "POINTERS_PER_INODE < nb \<Longrightarrow>
       ptr_array fs (map (get32 (contents d (indirect nd))) [0..<POINTERS_PER_BLOCK]) (nb - POINTERS_PER_INODE)"
    "nb \<le> POINTERS_PER_INODE \<Longrightarrow> indirect nd = 0"
    "distinct (inode_block_list d nd)"
  shows "wf_inode fs nd"
  using assms by (simp add: wf_inode_def)

lemma wf_inodeD:
  assumes "wf_inode fs nd" "disk fs = Some d"
  shows "length (direct nd) = POINTERS_PER_INODE"
    "nblocks (isize nd) \<le> POINTERS_PER_INODE + POINTERS_PER_BLOCK"
    "ptr_array fs (direct nd) (min (nblocks (isize nd)) POINTERS_PER_INODE)"
    "POINTERS_PER_INODE < nblocks (isize nd) \<Longrightarrow> block_used fs (indirect nd)"
    "POINTERS_PER_INODE < nblocks (isize nd) \<Longrightarrow>
       ptr_array fs (map (get32 (contents d (indirect nd))) [0..<POINTERS_PER_BLOCK])
         (nblocks (isize nd) - POINTERS_PER_INODE)"
    "nblocks (isize nd) \<le> POINTERS_PER_INODE \<Longrightarrow> indirect nd = 0"
    "distinct (inode_block_list d nd)"
proof -
  from assms have a: "length (direct nd) = POINTERS_PER_INODE"
    "nblocks (isize nd) \<le> POINTERS_PER_INODE + POINTERS_PER_BLOCK"
    "ptr_array fs (direct nd) (min (nblocks (isize nd)) POINTERS_PER_INODE)"
    "distinct (inode_block_list d nd)"
    and b: "if POINTERS_PER_INODE < nblocks (isize nd)
              then block_used fs (indirect nd)
                   \<and> ptr_array fs (map (get32 (contents d (indirect nd))) [0..<POINTERS_PER_BLOCK])
                       (nblocks (isize nd) - POINTERS_PER_INODE)
              else indirect nd = 0"
    unfolding wf_inode_def by simp_all
  from a show "length (direct nd) = POINTERS_PER_INODE"
    "nblocks (isize nd) \<le> POINTERS_PER_INODE + POINTERS_PER_BLOCK"
    "ptr_array fs (direct nd) (min (nblocks (isize nd)) POINTERS_PER_INODE)"
    "distinct (inode_block_list d nd)" by blast+
  { assume "POINTERS_PER_INODE < nblocks (isize nd)"
    with b show "block_used fs (indirect nd)"
      "ptr_array fs (map (get32 (contents d (indirect nd))) [0..<POINTERS_PER_BLOCK])
         (nblocks (isize nd) - POINTERS_PER_INODE)" by simp_all }
  { assume "nblocks (isize nd) \<le> POINTERS_PER_INODE"
    with b show "indirect nd = 0" by simp }
qed

lemma inode_block_list_direct:
  assumes "ptr_array fs (direct nd) m" "indirect nd = 0"
  shows "inode_block_list d nd = take m (direct nd)"
  using assms by (simp add: inode_block_list_def ptr_array_pointer_list)

lemma inode_block_list_indirect:
  assumes "ptr_array fs (direct nd) m" "indirect nd \<noteq> 0"
    "ptr_array fs (map (get32 (contents d (indirect nd))) [0..<POINTERS_PER_BLOCK]) m2"
  shows "inode_block_list d nd =
    take m (direct nd) @ indirect nd # take m2 (map (get32 (contents d (indirect nd))) [0..<POINTERS_PER_BLOCK])"
  using assms by (simp add: inode_block_list_def ptr_array_pointer_list)

lemma ptr_array_take_used:
  assumes "ptr_array fs xs m"
  shows "\<forall>b \<in> set (take m xs). block_used fs b"
proof
  fix b assume "b \<in> set (take m xs)"
  then obtain k where k: "k < length (take m xs)" "take m xs ! k = b" by (auto simp: in_set_conv_nth)
  then have "k < m" by simp
  with ptr_array_used[OF assms this] k show "block_used fs b" by simp
qed

lemma wf_blocks_used:
  assumes "wf_inode fs nd" "disk fs = Some d"
  shows "\<forall>b \<in> set (inode_block_list d nd). block_used fs b"
proof (cases "POINTERS_PER_INODE < nblocks (isize nd)")
  case True
  note w = wf_inodeD[OF assms]
  from block_used_nonzero[OF w(4)[OF True]] have nz: "indirect nd \<noteq> 0" .
  from inode_block_list_indirect[OF w(3) nz w(5)[OF True]]
    ptr_array_take_used[OF w(3)] ptr_array_take_used[OF w(5)[OF True]] w(4)[OF True]
  show ?thesis by (simp add: ball_Un)
next
  case False
  note w = wf_inodeD[OF assms]
  from False have "indirect nd = 0" by (intro w(6)) simp
  from inode_block_list_direct[OF w(3) this] ptr_array_take_used[OF w(3)]
  show ?thesis by simp
qed

lemma allocs_fresh:
  "allocs fs fs' bs \<Longrightarrow> block_used fs b \<Longrightarrow> b \<notin> set bs"
  using block_used_allocs[of fs b fs' bs] by simp

lemma allocs_lt_U32:
  assumes "allocs fs fs' bs" "disk fs = Some d" "blocks d \<le> U32"
  shows "\<forall>b \<in> set bs. b < U32"
  using allocs_D(4)[OF assms(1,2)] assms(3) by auto

lemma mounted_disk_update:
  "mounted fs \<Longrightarrow> disk fs = Some d \<Longrightarrow> blocks d' = blocks d \<Longrightarrow> fd d' = fd d \<Longrightarrow>
   mounted (fs\<lparr>disk := Some d'\<rparr>)"
  by (auto simp: mounted_def split: option.splits)

lemma free_count_disk_update [simp]:
  "disk fs = Some d \<Longrightarrow> blocks d' = blocks d \<Longrightarrow> free_count (fs\<lparr>disk := Some d'\<rparr>) = free_count fs"
  by (simp add: free_count_def split: option.splits)

lemma expand_postI:
  assumes "disk fs = Some d" "disk fs' = Some d'" "mounted fs'" "meta_data fs' = meta_data fs"
    "blocks d' = blocks d" "fd d' = fd d"
    "\<forall>b. \<not> block_used fs' b \<longrightarrow> contents d' b = contents d b"
    "wf_inode fs' nd'" "valid nd' = valid nd"
    "nblocks (isize nd) = nb" "nblocks (isize nd') = nb'" "nblocks new_size = nbn"
    "nb \<le> nb'" "nb' \<le> max nb nbn"
    "isize nd' = (if nb < nbn then (if nb' = nbn then new_size else nb' * BLOCK_SIZE)
                     else max (isize nd) new_size)"
    "free_count fs' + (nb' - nb)
       + (if nb \<le> POINTERS_PER_INODE \<and> POINTERS_PER_INODE < nb' then 1 else 0) = free_count fs"
    "nb' < nbn \<Longrightarrow> free_count fs' = 0 \<or> nb' = POINTERS_PER_INODE + POINTERS_PER_BLOCK
       \<or> (nb' = POINTERS_PER_INODE \<and> free_count fs' = 1)"
  shows "expand_post fs nd new_size fs' nd'"
  unfolding expand_post_def Let_def using assms by simp

lemma distinct_fresh:
  "distinct xs \<Longrightarrow> distinct bs \<Longrightarrow> \<forall>b \<in> set xs. P b \<Longrightarrow> \<forall>b \<in> set bs. \<not> P b \<Longrightarrow>
   distinct (xs @ bs)"
  by auto

lemma allocs_not_used: "allocs fs fs' bs \<Longrightarrow> \<forall>b \<in> set bs. \<not> block_used fs b"
  using allocs_fresh[of fs fs' bs] by blast

lemma inode_block_list_isize [simp]:
  "inode_block_list d (nd\<lparr>isize := s\<rparr>) = inode_block_list d nd"
  by (simp add: inode_block_list_def)

lemma fs_expand_file_same:
  assumes m: "mounted fs" and d: "disk fs = Some d" and w: "wf_inode fs nd"
    and n: "new_size + BLOCK_SIZE \<le> U64" and le: "nblocks new_size \<le> nblocks (isize nd)"
  shows "fs_expand_file fs nd new_size = Inr (fs, nd\<lparr>isize := max (isize nd) new_size\<rparr>)
     \<and> expand_post fs nd new_size fs (nd\<lparr>isize := max (isize nd) new_size\<rparr>)"
proof -
  note W = wf_inodeD[OF w d]
  note r1 = UPPER_ROUND_U32[OF W(2)]
  note r2 = UPPER_ROUND_U64[OF n]
  from le W(2) have "nblocks new_size \<le> POINTERS_PER_INODE + POINTERS_PER_BLOCK" by simp
  note r3 = UPPER_ROUND_U32(2)[OF this]
  from r1(2) r3 have "max (isize nd) new_size < U32" by (simp add: BLOCK_SIZE_def)
  then have md: "max (isize nd) new_size mod U32 = max (isize nd) new_size" by simp
  from le have nle: "\<not> nblocks (isize nd) < nblocks new_size" by simp
  have e: "fs_expand_file fs nd new_size = Inr (fs, nd\<lparr>isize := max (isize nd) new_size\<rparr>)"
    by (simp add: fs_expand_file_def Let_def r1(1) r2 nle md)
  have nb: "nblocks (isize (nd\<lparr>isize := max (isize nd) new_size\<rparr>)) = nblocks (isize nd)"
    using le by (simp add: nblocks_max max_absorb1)
  have wf: "wf_inode fs (nd\<lparr>isize := max (isize nd) new_size\<rparr>)"
  proof (rule wf_inodeI[OF d _ nb W(2)])
    show "length (direct (nd\<lparr>isize := max (isize nd) new_size\<rparr>)) = POINTERS_PER_INODE"
      using W(1) by simp
    show "ptr_array fs (direct (nd\<lparr>isize := max (isize nd) new_size\<rparr>))
       (min (nblocks (isize nd)) POINTERS_PER_INODE)" using W(3) by simp
    show "POINTERS_PER_INODE < nblocks (isize nd) \<Longrightarrow>
       block_used fs (indirect (nd\<lparr>isize := max (isize nd) new_size\<rparr>))" using W(4) by simp
    show "POINTERS_PER_INODE < nblocks (isize nd) \<Longrightarrow>
       ptr_array fs (map (get32 (contents d (indirect (nd\<lparr>isize := max (isize nd) new_size\<rparr>))))
         [0..<POINTERS_PER_BLOCK]) (nblocks (isize nd) - POINTERS_PER_INODE)" using W(5) by simp
    show "nblocks (isize nd) \<le> POINTERS_PER_INODE \<Longrightarrow>
       indirect (nd\<lparr>isize := max (isize nd) new_size\<rparr>) = 0" using W(6) by simp
    show "distinct (inode_block_list d (nd\<lparr>isize := max (isize nd) new_size\<rparr>))"
      using W(7) by simp
  qed
  have "expand_post fs nd new_size fs (nd\<lparr>isize := max (isize nd) new_size\<rparr>)"
    by (rule expand_postI[OF d d m _ _ _ _ wf _ refl nb refl]) (use nle in simp_all)
  with e show ?thesis by simp
qed


lemma block_used_lt: "block_used fs b \<Longrightarrow> disk fs = Some d \<Longrightarrow> b < blocks d"
  by (simp add: block_used_def split: option.splits)

lemma fs_expand_file_indirect:
  assumes m: "mounted fs" and d: "disk fs = Some d" and u: "blocks d \<le> U32"
    and w: "wf_inode fs nd" and n: "new_size + BLOCK_SIZE \<le> U64"
    and lt: "nblocks (isize nd) < nblocks new_size"
    and big: "POINTERS_PER_INODE < nblocks (isize nd)"
  shows "\<exists>fs' nd'. fs_expand_file fs nd new_size = Inr (fs', nd')
     \<and> expand_post fs nd new_size fs' nd'"
proof -
  note W = wf_inodeD[OF w d]
  define nb where "nb = nblocks (isize nd)"
  define nbn where "nbn = nblocks new_size"
  define es where "es = map (get32 (contents d (indirect nd))) [0..<POINTERS_PER_BLOCK]"
  note r1 = UPPER_ROUND_U32[OF W(2), folded nb_def]
  note r2 = UPPER_ROUND_U64[OF n, folded nbn_def]
  from lt have lt': "nb < nbn" by (simp add: nb_def nbn_def)
  from big have big': "POINTERS_PER_INODE < nb" by (simp add: nb_def)
  from W(2) have cap: "nb \<le> POINTERS_PER_INODE + POINTERS_PER_BLOCK" by (simp add: nb_def)
  have used: "block_used fs (indirect nd)" by (rule W(4)[OF big])
  note nz = block_used_nonzero[OF used]
  note rng = block_used_lt[OF used d]
  from big' have i: "POINTERS_PER_INODE \<le> nb" by simp
  from expand_indirect_part_old[OF m d i nz rng, of "nbn - nb"] obtain fs2 bs where
    p: "expand_indirect_part fs nd nb (nbn - nb) =
       Inr (fs2\<lparr>disk := Some (d\<lparr>contents := (contents d)(indirect nd :=
              set_words (contents d (indirect nd)) (nb - POINTERS_PER_INODE) bs)\<rparr>)\<rparr>, nd,
            nbn - nb - length bs)"
    and a: "allocs fs fs2 bs" and fc: "free_count fs2 + length bs = free_count fs"
    and m2: "mounted fs2"
    and len: "length bs = min (min (POINTERS_PER_BLOCK - (nb - POINTERS_PER_INODE)) (nbn - nb))
                (free_count fs)"
    by blast
  define d2 where "d2 = d\<lparr>contents := (contents d)(indirect nd :=
              set_words (contents d (indirect nd)) (nb - POINTERS_PER_INODE) bs)\<rparr>"
  define nb' where "nb' = nb + length bs"
  from len lt' have le1: "nb' \<le> nbn" unfolding nb'_def by arith
  from len cap big' have le2: "nb' \<le> POINTERS_PER_INODE + POINTERS_PER_BLOCK"
    unfolding nb'_def by arith
  from len cap big' have le3: "nb - POINTERS_PER_INODE + length bs \<le> POINTERS_PER_BLOCK"
    by arith
  note fsz = final_size[OF le1[unfolded nbn_def] le2, folded nbn_def]
  define s where "s = (if nbn - nb' \<noteq> 0
      then ((nbn - (nbn - nb')) * BLOCK_SIZE) mod U64 else new_size) mod U32"
  note fsz' = fsz[folded s_def]
  have st: "expand_direct fs nd nb (nbn - nb) = Inr (fs, nd, nb, nbn - nb)"
    using big' by (simp add: expand_direct_stop)
  have e: "fs_expand_file fs nd new_size =
      Inr (fs2\<lparr>disk := Some d2\<rparr>, nd\<lparr>isize := s\<rparr>)"
    using lt' by (simp add: fs_expand_file_def Let_def r1(1) r2 st p d2_def s_def nb'_def)
  note D2 = allocs_D[OF a d]
  have d2f: "blocks d2 = blocks d" "fd d2 = fd d" by (simp_all add: d2_def)
  have mf: "mounted (fs2\<lparr>disk := Some d2\<rparr>)"
    by (rule mounted_disk_update[OF m2 D2(1) d2f])
  have c2: "contents d2 (indirect nd) =
      set_words (contents d (indirect nd)) (nb - POINTERS_PER_INODE) bs"
    by (simp add: d2_def)
  have es2: "map (get32 (contents d2 (indirect nd))) [0..<POINTERS_PER_BLOCK] =
      put_list es (nb - POINTERS_PER_INODE) bs"
    unfolding c2 es_def by (rule map_get32_set_words[OF le3 allocs_lt_U32[OF a d u]])
  have les: "length es = POINTERS_PER_BLOCK" by (simp add: es_def)
  from W(5)[OF big] have pe: "ptr_array fs es (nb - POINTERS_PER_INODE)"
    by (simp add: es_def nb_def)
  have pe2: "ptr_array fs2 (put_list es (nb - POINTERS_PER_INODE) bs)
      (nb - POINTERS_PER_INODE + length bs)"
    by (rule ptr_array_put[OF pe a]) (simp add: les le3)
  from W(3) big' have pd: "ptr_array fs (direct nd) POINTERS_PER_INODE"
    by (simp add: nb_def min_absorb2)
  note pd2 = ptr_array_allocs[OF pd a]
  from block_used_allocs[OF used a] have used2: "block_used fs2 (indirect nd)" by simp
  have nbs: "nblocks (isize (nd\<lparr>isize := s\<rparr>)) = nb'" using fsz'(2) by simp
  have old: "inode_block_list d nd =
      take POINTERS_PER_INODE (direct nd) @ indirect nd # take (nb - POINTERS_PER_INODE) es"
    unfolding es_def by (rule inode_block_list_indirect[OF pd nz pe[unfolded es_def]])
  have pe2': "ptr_array (fs2\<lparr>disk := Some d2\<rparr>)
      (map (get32 (contents d2 (indirect nd))) [0..<POINTERS_PER_BLOCK])
      (nb - POINTERS_PER_INODE + length bs)"
    using pe2 d2f D2(1) by (simp add: es2)
  have pd2': "ptr_array (fs2\<lparr>disk := Some d2\<rparr>) (direct nd) POINTERS_PER_INODE"
    using pd2 d2f D2(1) by simp
  have new: "inode_block_list d2 (nd\<lparr>isize := s\<rparr>) = inode_block_list d nd @ bs"
  proof -
    have "inode_block_list d2 nd = take POINTERS_PER_INODE (direct nd) @ indirect nd #
        take (nb - POINTERS_PER_INODE + length bs)
          (map (get32 (contents d2 (indirect nd))) [0..<POINTERS_PER_BLOCK])"
      by (rule inode_block_list_indirect[OF pd2' nz pe2'])
    also have "take (nb - POINTERS_PER_INODE + length bs)
          (map (get32 (contents d2 (indirect nd))) [0..<POINTERS_PER_BLOCK])
        = take (nb - POINTERS_PER_INODE) es @ bs"
      unfolding es2 using pe by (intro take_put_list) (simp add: ptr_array_iff)
    finally show ?thesis by (simp add: old)
  qed
  have dist: "distinct (inode_block_list d2 (nd\<lparr>isize := s\<rparr>))"
    unfolding new
    by (rule distinct_fresh[OF W(7) D2(3) wf_blocks_used[OF w d] allocs_not_used[OF a]])
  have wf: "wf_inode (fs2\<lparr>disk := Some d2\<rparr>) (nd\<lparr>isize := s\<rparr>)"
  proof (rule wf_inodeI[OF _ _ nbs le2])
    show "disk (fs2\<lparr>disk := Some d2\<rparr>) = Some d2" by simp
    show "length (direct (nd\<lparr>isize := s\<rparr>)) = POINTERS_PER_INODE" using W(1) by simp
    show "ptr_array (fs2\<lparr>disk := Some d2\<rparr>) (direct (nd\<lparr>isize := s\<rparr>))
        (min nb' POINTERS_PER_INODE)"
      using pd2' big' by (simp add: nb'_def min_absorb2)
    show "block_used (fs2\<lparr>disk := Some d2\<rparr>) (indirect (nd\<lparr>isize := s\<rparr>))"
      using used2 d2f D2(1) by simp
    show "ptr_array (fs2\<lparr>disk := Some d2\<rparr>)
        (map (get32 (contents d2 (indirect (nd\<lparr>isize := s\<rparr>)))) [0..<POINTERS_PER_BLOCK])
        (nb' - POINTERS_PER_INODE)"
      using pe2' big' by (simp add: nb'_def)
    show "nb' \<le> POINTERS_PER_INODE \<Longrightarrow> indirect (nd\<lparr>isize := s\<rparr>) = 0"
      using big' by (simp add: nb'_def)
    show "distinct (inode_block_list d2 (nd\<lparr>isize := s\<rparr>))" by (rule dist)
  qed
  have cont: "\<forall>b. \<not> block_used (fs2\<lparr>disk := Some d2\<rparr>) b \<longrightarrow> contents d2 b = contents d b"
    using used2 d2f D2(1) by (auto simp: d2_def)
  have "expand_post fs nd new_size (fs2\<lparr>disk := Some d2\<rparr>) (nd\<lparr>isize := s\<rparr>)"
  proof (rule expand_postI[OF d _ mf _ d2f cont wf _ nb_def[symmetric] nbs nbn_def[symmetric]])
    show "disk (fs2\<lparr>disk := Some d2\<rparr>) = Some d2" by simp
    show "meta_data (fs2\<lparr>disk := Some d2\<rparr>) = meta_data fs" using D2(2) by simp
    show "valid (nd\<lparr>isize := s\<rparr>) = valid nd" by simp
    show "nb \<le> nb'" by (simp add: nb'_def)
    show "nb' \<le> max nb nbn" using le1 by simp
    show "isize (nd\<lparr>isize := s\<rparr>) =
        (if nb < nbn then if nb' = nbn then new_size else nb' * BLOCK_SIZE
         else max (isize nd) new_size)"
      using lt' fsz'(1) by simp
    show "free_count (fs2\<lparr>disk := Some d2\<rparr>) + (nb' - nb) +
        (if nb \<le> POINTERS_PER_INODE \<and> POINTERS_PER_INODE < nb' then 1 else 0) = free_count fs"
      using fc big' d2f D2(1) by (simp add: nb'_def)
    show "nb' < nbn \<Longrightarrow> free_count (fs2\<lparr>disk := Some d2\<rparr>) = 0
        \<or> nb' = POINTERS_PER_INODE + POINTERS_PER_BLOCK
        \<or> nb' = POINTERS_PER_INODE \<and> free_count (fs2\<lparr>disk := Some d2\<rparr>) = 1"
    proof -
      assume "nb' < nbn"
      with len fc cap big' have "free_count fs2 = 0 \<or> nb' = POINTERS_PER_INODE + POINTERS_PER_BLOCK"
        unfolding nb'_def by arith
      then show ?thesis using d2f D2(1) by auto
    qed
  qed
  with e show ?thesis by blast
qed


lemma ptr_array_fresh:
  assumes "allocs fs fs' bs'" "set bs \<subseteq> set bs'" "length bs \<le> length zs" "\<forall>z \<in> set zs. z = 0"
  shows "ptr_array fs' (put_list zs 0 bs) (length bs)"
proof -
  have "\<forall>k < length bs. block_used fs' (put_list zs 0 bs ! k)"
  proof (intro allI impI)
    fix k assume k: "k < length bs"
    with assms(2) have "bs ! k \<in> set bs'" by (auto simp: subset_iff)
    from block_used_new[OF assms(1) this] k assms(3) show "block_used fs' (put_list zs 0 bs ! k)"
      by (simp add: nth_put_list)
  qed
  moreover have "\<forall>k. length bs \<le> k \<and> k < length (put_list zs 0 bs) \<longrightarrow> put_list zs 0 bs ! k = 0"
    using assms(3,4) by (simp add: nth_put_list length_put_list)
  ultimately show ?thesis using assms(3) by (simp add: ptr_array_iff length_put_list)
qed

lemma fs_expand_file_direct:
  assumes m: "mounted fs" and d: "disk fs = Some d" and u: "blocks d \<le> U32"
    and w: "wf_inode fs nd" and n: "new_size + BLOCK_SIZE \<le> U64"
    and lt: "nblocks (isize nd) < nblocks new_size"
    and small: "nblocks (isize nd) \<le> POINTERS_PER_INODE"
  shows "\<exists>fs' nd'. fs_expand_file fs nd new_size = Inr (fs', nd')
     \<and> expand_post fs nd new_size fs' nd'"
proof -
  note W = wf_inodeD[OF w d]
  define nb where "nb = nblocks (isize nd)"
  define nbn where "nbn = nblocks new_size"
  note r1 = UPPER_ROUND_U32[OF W(2), folded nb_def]
  note r2 = UPPER_ROUND_U64[OF n, folded nbn_def]
  from lt have lt': "nb < nbn" by (simp add: nb_def nbn_def)
  from small have small': "nb \<le> POINTERS_PER_INODE" by (simp add: nb_def)
  have z: "indirect nd = 0" by (rule W(6)[OF small])
  from W(3) small' have pd: "ptr_array fs (direct nd) nb" by (simp add: nb_def min_absorb1)
  from expand_direct_spec[OF m d u W(1), of nb "nbn - nb"] obtain fs1 bs1 where
    p1: "expand_direct fs nd nb (nbn - nb) =
        Inr (fs1, nd\<lparr>direct := put_list (direct nd) nb bs1\<rparr>, nb + length bs1,
             nbn - nb - length bs1)"
    and a1: "allocs fs fs1 bs1" and fc1: "free_count fs1 + length bs1 = free_count fs"
    and m1: "mounted fs1"
    and len1: "length bs1 = min (min (POINTERS_PER_INODE - nb) (nbn - nb)) (free_count fs)"
    by blast
  define nd1 where "nd1 = nd\<lparr>direct := put_list (direct nd) nb bs1\<rparr>"
  define idx1 where "idx1 = nb + length bs1"
  from len1 small' have i5: "idx1 \<le> POINTERS_PER_INODE" unfolding idx1_def by arith
  from len1 lt' have in1: "idx1 \<le> nbn" unfolding idx1_def by arith
  note D1 = allocs_D[OF a1 d]
  have z1: "indirect nd1 = 0" using z by (simp add: nd1_def)
  have l1: "length (direct nd1) = POINTERS_PER_INODE"
    using W(1) i5 by (simp add: nd1_def length_put_list idx1_def)
  have pd1: "ptr_array fs1 (direct nd1) idx1"
    unfolding nd1_def idx1_def using ptr_array_put[OF pd a1] i5 W(1)
    by (simp add: idx1_def)
  have old: "inode_block_list d nd = take nb (direct nd)"
    by (rule inode_block_list_direct[OF pd z])
  have tk1: "take idx1 (direct nd1) = inode_block_list d nd @ bs1"
    unfolding old using small' W(1) by (simp add: nd1_def idx1_def take_put_list)
  have dist1: "distinct (inode_block_list d nd @ bs1)"
    by (rule distinct_fresh[OF W(7) D1(3) wf_blocks_used[OF w d] allocs_not_used[OF a1]])
  have used1: "\<forall>b \<in> set (inode_block_list d nd @ bs1). block_used fs1 b"
    using wf_blocks_used[OF w d] block_used_allocs[OF _ a1] block_used_new[OF a1] by auto
  have e0: "fs_expand_file fs nd new_size =
      (case expand_indirect_part fs1 nd1 idx1 (nbn - idx1) of
         Inl f \<Rightarrow> Inl f
       | Inr (fs2, node2, dif2) \<Rightarrow>
           Inr (fs2, node2\<lparr>isize := (if dif2 \<noteq> 0 then ((nbn - dif2) * BLOCK_SIZE) mod U64
                                else new_size) mod U32\<rparr>))"
    using lt' by (simp add: fs_expand_file_def Let_def r1(1) r2 p1 nd1_def idx1_def)
  show ?thesis
  proof (cases "idx1 < POINTERS_PER_INODE \<or> free_count fs1 < 2 \<or> nbn - idx1 = 0")
    case True
    have p2: "expand_indirect_part fs1 nd1 idx1 (nbn - idx1) = Inr (fs1, nd1, nbn - idx1)"
    proof (cases "idx1 < POINTERS_PER_INODE")
      case True
      then show ?thesis by (rule expand_indirect_part_direct)
    next
      case False
      with i5 have eq: "idx1 = POINTERS_PER_INODE" by simp
      from False True have "free_count fs1 < 2 \<or> nbn - idx1 = 0" by simp
      with expand_indirect_part_new[OF m1 D1(1) u z1, of "nbn - idx1"] show ?thesis
        unfolding eq by simp
    qed
    note fsz = final_size[OF in1[unfolded nbn_def] order_trans[OF i5 le_add1], folded nbn_def]
    define s where "s = (if nbn - idx1 \<noteq> 0
        then ((nbn - (nbn - idx1)) * BLOCK_SIZE) mod U64 else new_size) mod U32"
    note fsz' = fsz[folded s_def]
    have e: "fs_expand_file fs nd new_size = Inr (fs1, nd1\<lparr>isize := s\<rparr>)"
      by (simp add: e0 p2 s_def)
    have nbs: "nblocks (isize (nd1\<lparr>isize := s\<rparr>)) = idx1" using fsz'(2) by simp
    have ibl: "inode_block_list d (nd1\<lparr>isize := s\<rparr>) = inode_block_list d nd @ bs1"
      using inode_block_list_direct[OF pd1 z1, of d] by (simp add: tk1)
    have wf: "wf_inode fs1 (nd1\<lparr>isize := s\<rparr>)"
    proof (rule wf_inodeI[OF D1(1) _ nbs order_trans[OF i5 le_add1]])
      show "length (direct (nd1\<lparr>isize := s\<rparr>)) = POINTERS_PER_INODE" using l1 by simp
      show "ptr_array fs1 (direct (nd1\<lparr>isize := s\<rparr>)) (min idx1 POINTERS_PER_INODE)"
        using pd1 i5 by (simp add: min_absorb1)
      show "POINTERS_PER_INODE < idx1 \<Longrightarrow> block_used fs1 (indirect (nd1\<lparr>isize := s\<rparr>))"
        using i5 by simp
      show "POINTERS_PER_INODE < idx1 \<Longrightarrow> ptr_array fs1
          (map (get32 (contents d (indirect (nd1\<lparr>isize := s\<rparr>)))) [0..<POINTERS_PER_BLOCK])
          (idx1 - POINTERS_PER_INODE)"
        using i5 by simp
      show "idx1 \<le> POINTERS_PER_INODE \<Longrightarrow> indirect (nd1\<lparr>isize := s\<rparr>) = 0"
        using z1 by simp
      show "distinct (inode_block_list d (nd1\<lparr>isize := s\<rparr>))"
        unfolding ibl by (rule dist1)
    qed
    have "expand_post fs nd new_size fs1 (nd1\<lparr>isize := s\<rparr>)"
    proof (rule expand_postI[OF d D1(1) m1 D1(2) refl refl _ wf _ nb_def[symmetric] nbs
          nbn_def[symmetric]])
      show "\<forall>b. \<not> block_used fs1 b \<longrightarrow> contents d b = contents d b" by simp
      show "valid (nd1\<lparr>isize := s\<rparr>) = valid nd" by (simp add: nd1_def)
      show "nb \<le> idx1" by (simp add: idx1_def)
      show "idx1 \<le> max nb nbn" using in1 by simp
      show "isize (nd1\<lparr>isize := s\<rparr>) =
          (if nb < nbn then if idx1 = nbn then new_size else idx1 * BLOCK_SIZE
           else max (isize nd) new_size)"
        using lt' fsz'(1) by simp
      show "free_count fs1 + (idx1 - nb) +
          (if nb \<le> POINTERS_PER_INODE \<and> POINTERS_PER_INODE < idx1 then 1 else 0) = free_count fs"
        using fc1 i5 by (simp add: idx1_def)
      show "idx1 < nbn \<Longrightarrow> free_count fs1 = 0 \<or> idx1 = POINTERS_PER_INODE + POINTERS_PER_BLOCK
          \<or> idx1 = POINTERS_PER_INODE \<and> free_count fs1 = 1"
        using True len1 fc1 i5 small' lt' unfolding idx1_def by arith
    qed
    with e show ?thesis by blast
  next
    case False
    with i5 have eq: "idx1 = POINTERS_PER_INODE" and f2: "\<not> (free_count fs1 < 2 \<or> nbn - idx1 = 0)"
      by simp_all
    from expand_indirect_part_new[OF m1 D1(1) u z1, of "nbn - idx1", unfolded if_not_P[OF f2]]
    obtain b bs fs2 where
      p2: "expand_indirect_part fs1 nd1 POINTERS_PER_INODE (nbn - idx1) =
            Inr (fs2\<lparr>disk := Some (d\<lparr>contents := (contents d)(b := set_words zero_block 0 bs)\<rparr>)\<rparr>,
                 nd1\<lparr>indirect := b\<rparr>, nbn - idx1 - length bs)"
      and a2: "allocs fs1 fs2 (b # bs)" and fc2: "free_count fs2 + 1 + length bs = free_count fs1"
      and m2: "mounted fs2"
      and len2: "length bs = min (min POINTERS_PER_BLOCK (nbn - idx1)) (free_count fs1 - 1)"
      and ne: "bs \<noteq> []"
      by blast
    define d2 where "d2 = d\<lparr>contents := (contents d)(b := set_words zero_block 0 bs)\<rparr>"
    define nb' where "nb' = idx1 + length bs"
    from len2 f2 have le1: "nb' \<le> nbn" unfolding nb'_def by arith
    from len2 eq have le2: "nb' \<le> POINTERS_PER_INODE + POINTERS_PER_BLOCK"
      unfolding nb'_def by arith
    from len2 have le3: "0 + length bs \<le> POINTERS_PER_BLOCK" by arith
    from ne eq have big': "POINTERS_PER_INODE < nb'" by (simp add: nb'_def)
    note fsz = final_size[OF le1[unfolded nbn_def] le2, folded nbn_def]
    define s where "s = (if nbn - nb' \<noteq> 0
        then ((nbn - (nbn - nb')) * BLOCK_SIZE) mod U64 else new_size) mod U32"
    note fsz' = fsz[folded s_def]
    define nd2 where "nd2 = nd1\<lparr>indirect := b, isize := s\<rparr>"
    have e: "fs_expand_file fs nd new_size = Inr (fs2\<lparr>disk := Some d2\<rparr>, nd2)"
      by (simp add: e0 eq[symmetric] p2[unfolded eq[symmetric]] s_def nb'_def d2_def nd2_def)
    note D2 = allocs_D[OF a2 D1(1)]
    have d2f: "blocks d2 = blocks d" "fd d2 = fd d" by (simp_all add: d2_def)
    have mf: "mounted (fs2\<lparr>disk := Some d2\<rparr>)"
      by (rule mounted_disk_update[OF m2 D2(1) d2f])
    have ub: "block_used fs2 b" by (rule block_used_new[OF a2]) simp
    note bnz = block_used_nonzero[OF ub]
    have c2: "contents d2 b = set_words zero_block 0 bs" by (simp add: d2_def)
    have "\<forall>x \<in> set (b # bs). x < U32" by (rule allocs_lt_U32[OF a2 D1(1) u])
    then have bsu: "\<forall>x \<in> set bs. x < U32" by simp
    have es2: "map (get32 (contents d2 b)) [0..<POINTERS_PER_BLOCK] =
        put_list (map (get32 zero_block) [0..<POINTERS_PER_BLOCK]) 0 bs"
      unfolding c2 by (rule map_get32_set_words[OF le3 bsu])
    have pe2: "ptr_array fs2 (map (get32 (contents d2 b)) [0..<POINTERS_PER_BLOCK]) (length bs)"
      unfolding es2 by (rule ptr_array_fresh[OF a2]) (use le3 in auto)
    have tk2: "take (length bs) (map (get32 (contents d2 b)) [0..<POINTERS_PER_BLOCK]) = bs"
      unfolding es2 using take_put_list[of 0 "map (get32 zero_block) [0..<POINTERS_PER_BLOCK]" bs]
      by simp
    note pd2 = ptr_array_allocs[OF pd1 a2]
    have nbs: "nblocks (isize nd2) = nb'" using fsz'(2) by (simp add: nd2_def)
    have dn2: "direct nd2 = direct nd1" "indirect nd2 = b" by (simp_all add: nd2_def)
    have pd2': "ptr_array (fs2\<lparr>disk := Some d2\<rparr>) (direct nd2) idx1"
      using pd2 d2f D2(1) by (simp add: dn2)
    have pe2': "ptr_array (fs2\<lparr>disk := Some d2\<rparr>)
        (map (get32 (contents d2 (indirect nd2))) [0..<POINTERS_PER_BLOCK]) (length bs)"
      using pe2 d2f D2(1) by (simp add: dn2)
    have ibl: "inode_block_list d2 nd2 = (inode_block_list d nd @ bs1) @ b # bs"
      using inode_block_list_indirect[OF pd2' _ pe2'] bnz by (simp add: dn2 tk1 tk2)
    have dist: "distinct (inode_block_list d2 nd2)"
      unfolding ibl by (rule distinct_fresh[OF dist1 D2(3) used1 allocs_not_used[OF a2]])
    have wf: "wf_inode (fs2\<lparr>disk := Some d2\<rparr>) nd2"
    proof (rule wf_inodeI[OF _ _ nbs le2])
      show "disk (fs2\<lparr>disk := Some d2\<rparr>) = Some d2" by simp
      show "length (direct nd2) = POINTERS_PER_INODE" using l1 by (simp add: dn2)
      show "ptr_array (fs2\<lparr>disk := Some d2\<rparr>) (direct nd2) (min nb' POINTERS_PER_INODE)"
        using pd2' big' eq by (simp add: min_absorb2)
      show "block_used (fs2\<lparr>disk := Some d2\<rparr>) (indirect nd2)"
        using ub d2f D2(1) by (simp add: dn2)
      show "ptr_array (fs2\<lparr>disk := Some d2\<rparr>)
          (map (get32 (contents d2 (indirect nd2))) [0..<POINTERS_PER_BLOCK])
          (nb' - POINTERS_PER_INODE)"
        using pe2' eq by (simp add: nb'_def)
      show "nb' \<le> POINTERS_PER_INODE \<Longrightarrow> indirect nd2 = 0" using big' by simp
      show "distinct (inode_block_list d2 nd2)" by (rule dist)
    qed
    have cont: "\<forall>x. \<not> block_used (fs2\<lparr>disk := Some d2\<rparr>) x \<longrightarrow> contents d2 x = contents d x"
      using ub d2f D2(1) by (auto simp: d2_def)
    have "expand_post fs nd new_size (fs2\<lparr>disk := Some d2\<rparr>) nd2"
    proof (rule expand_postI[OF d _ mf _ d2f cont wf _ nb_def[symmetric] nbs nbn_def[symmetric]])
      show "disk (fs2\<lparr>disk := Some d2\<rparr>) = Some d2" by simp
      show "meta_data (fs2\<lparr>disk := Some d2\<rparr>) = meta_data fs" using D2(2) D1(2) by simp
      show "valid nd2 = valid nd" by (simp add: nd2_def nd1_def)
      show "nb \<le> nb'" by (simp add: nb'_def idx1_def)
      show "nb' \<le> max nb nbn" using le1 by simp
      show "isize nd2 =
          (if nb < nbn then if nb' = nbn then new_size else nb' * BLOCK_SIZE
           else max (isize nd) new_size)"
        using lt' fsz'(1) by (simp add: nd2_def)
      have "free_count fs2 + (nb' - nb) + 1 = free_count fs"
        using fc1 fc2 by (simp add: nb'_def idx1_def)
      then show "free_count (fs2\<lparr>disk := Some d2\<rparr>) + (nb' - nb) +
          (if nb \<le> POINTERS_PER_INODE \<and> POINTERS_PER_INODE < nb' then 1 else 0) = free_count fs"
        using big' small' d2f D2(1) by simp
      show "nb' < nbn \<Longrightarrow> free_count (fs2\<lparr>disk := Some d2\<rparr>) = 0
          \<or> nb' = POINTERS_PER_INODE + POINTERS_PER_BLOCK
          \<or> nb' = POINTERS_PER_INODE \<and> free_count (fs2\<lparr>disk := Some d2\<rparr>) = 1"
      proof -
        assume "nb' < nbn"
        with len2 fc2 eq have "free_count fs2 = 0 \<or> nb' = POINTERS_PER_INODE + POINTERS_PER_BLOCK"
          unfolding nb'_def by arith
        then show ?thesis using d2f D2(1) by auto
      qed
    qed
    with e show ?thesis by blast
  qed
qed

lemma fs_expand_file_wf:
  assumes "mounted fs" "disk fs = Some d" "blocks d \<le> U32" "wf_inode fs nd"
    "new_size + BLOCK_SIZE \<le> U64"
  shows "\<exists>fs' nd'. fs_expand_file fs nd new_size = Inr (fs', nd')
     \<and> expand_post fs nd new_size fs' nd'"
proof (cases "nblocks (isize nd) < nblocks new_size")
  case False
  then have "nblocks new_size \<le> nblocks (isize nd)" by simp
  from fs_expand_file_same[OF assms(1,2,4,5) this] show ?thesis by blast
next
  case True
  show ?thesis
  proof (cases "POINTERS_PER_INODE < nblocks (isize nd)")
    case True
    from fs_expand_file_indirect[OF assms \<open>nblocks (isize nd) < nblocks new_size\<close> True]
    show ?thesis .
  next
    case False
    then have "nblocks (isize nd) \<le> POINTERS_PER_INODE" by simp
    from fs_expand_file_direct[OF assms \<open>nblocks (isize nd) < nblocks new_size\<close> this]
    show ?thesis .
  qed
qed

subsection \<open>The loops of fs\_write and fs\_read on well-formed inodes\<close>

lemma write_direct_stop:
  "\<not> (i < POINTERS_PER_INODE \<and> direct nd ! i \<noteq> 0 \<and> bw < len) \<Longrightarrow>
   write_direct fs nd data len i off bw = Inr (None, fs, i, off, bw)"
  by (subst write_direct.simps) auto

lemma write_direct_step:
  assumes "i < POINTERS_PER_INODE" "direct nd ! i \<noteq> 0" "bw < len" "disk fs = Some d" "0 \<le> fd d"
    "direct nd ! i < blocks d" "off < BLOCK_SIZE"
  shows "write_direct fs nd data len i off bw =
     write_direct (fs\<lparr>disk := Some (d\<lparr>contents := (contents d)(direct nd ! i :=
         (\<lambda>k. if off \<le> k \<and> k < off + min (BLOCK_SIZE - off) (len - bw)
              then data (bw + (k - off)) else contents d (direct nd ! i) k))\<rparr>)\<rparr>)
       nd data len (i + 1) 0 (bw + min (BLOCK_SIZE - off) (len - bw))"
proof -
  from assms(7) have "off + min (BLOCK_SIZE - off) (len - bw) \<le> BLOCK_SIZE" by simp
  with assms show ?thesis
    by (subst write_direct.simps)
       (simp add: disk_read_ok disk_write_ok memcpy_to_block_def Let_def)
qed

lemma write_indirect_stop:
  "\<not> (i < POINTERS_PER_BLOCK \<and> get32 blk i \<noteq> 0 \<and> bw < len) \<Longrightarrow>
   write_indirect fs blk data len i off bw = Inr (fs, i, off, bw)"
  by (subst write_indirect.simps) auto

lemma write_indirect_step:
  assumes "i < POINTERS_PER_BLOCK" "get32 blk i \<noteq> 0" "bw < len" "disk fs = Some d" "0 \<le> fd d"
    "get32 blk i < blocks d" "off < BLOCK_SIZE"
  shows "write_indirect fs blk data len i off bw =
     write_indirect (fs\<lparr>disk := Some (d\<lparr>contents := (contents d)(get32 blk i :=
         (\<lambda>k. if off \<le> k \<and> k < off + min (BLOCK_SIZE - off) (len - bw)
              then data (bw + (k - off)) else contents d (get32 blk i) k))\<rparr>)\<rparr>)
       blk data len (i + 1) 0 (bw + min (BLOCK_SIZE - off) (len - bw))"
proof -
  from assms(7) have "off + min (BLOCK_SIZE - off) (len - bw) \<le> BLOCK_SIZE" by simp
  with assms show ?thesis
    by (subst write_indirect.simps)
       (simp add: disk_read_ok disk_write_ok memcpy_to_block_def Let_def)
qed

lemma disk_contents_same: "disk fs = Some d \<Longrightarrow> fs\<lparr>disk := Some (d\<lparr>contents := contents d\<rparr>)\<rparr> = fs"
  by simp

lemma drop_take_Cons:
  "i < m \<Longrightarrow> m \<le> length xs \<Longrightarrow> drop i (take m xs) = xs ! i # drop (Suc i) (take m xs)"
  by (simp add: Cons_nth_drop_Suc[symmetric])

lemma write_direct_wloop:
  assumes "ptr_array fs (direct nd) m" "length (direct nd) = POINTERS_PER_INODE" "mounted fs"
    "disk fs = Some d" "off < BLOCK_SIZE"
  shows "case wloop (contents d) (drop i (take m (direct nd))) data len off bw of
      (c', off', bw') \<Rightarrow>
        \<exists>i'. write_direct fs nd data len i off bw =
               Inr (None, fs\<lparr>disk := Some (d\<lparr>contents := c'\<rparr>)\<rparr>, i', off', bw')
           \<and> (bw' < len \<longrightarrow> i' = max i m)"
  using assms
proof (induction "m - i" arbitrary: i fs d off bw)
  case 0
  then have mi: "m \<le> i" by simp
  then have dr: "drop i (take m (direct nd)) = []" by simp
  have stop: "\<not> (i < POINTERS_PER_INODE \<and> direct nd ! i \<noteq> 0 \<and> bw < len)"
    using ptr_array_nth[OF "0.prems"(1), of i] mi "0.prems"(2) by auto
  show ?case using mi "0.prems"(4)
    by (simp add: dr write_direct_stop[OF stop] max_absorb1)
next
  case (Suc n)
  then have im: "i < m" by simp
  from Suc.prems(1) have ml: "m \<le> length (direct nd)" by (simp add: ptr_array_iff)
  define b where "b = direct nd ! i"
  have dr: "drop i (take m (direct nd)) = b # drop (Suc i) (take m (direct nd))"
    unfolding b_def by (rule drop_take_Cons[OF im ml])
  have ub: "block_used fs b" unfolding b_def by (rule ptr_array_used[OF Suc.prems(1) im])
  note bnz = block_used_nonzero[OF ub]
  note blt = block_used_lt[OF ub Suc.prems(4)]
  note fdd = mounted_fd[OF Suc.prems(3,4)]
  from im ml Suc.prems(2) have i5: "i < POINTERS_PER_INODE" by simp
  show ?case
  proof (cases "bw < len")
    case False
    then have stop: "\<not> (i < POINTERS_PER_INODE \<and> direct nd ! i \<noteq> 0 \<and> bw < len)" by simp
    show ?thesis using False Suc.prems(4)
      by (simp add: dr write_direct_stop[OF stop])
  next
    case True
    define sz where "sz = min (BLOCK_SIZE - off) (len - bw)"
    define d1 where "d1 = d\<lparr>contents := (contents d)(b :=
         (\<lambda>k. if off \<le> k \<and> k < off + sz then data (bw + (k - off)) else contents d b k))\<rparr>"
    define fs1 where "fs1 = fs\<lparr>disk := Some d1\<rparr>"
    have st: "write_direct fs nd data len i off bw =
        write_direct fs1 nd data len (Suc i) 0 (bw + sz)"
      using write_direct_step[OF i5 bnz[unfolded b_def] True Suc.prems(4) fdd blt[unfolded b_def]
          Suc.prems(5), of data]
      unfolding fs1_def d1_def sz_def b_def by simp
    have d1f: "blocks d1 = blocks d" "fd d1 = fd d" by (simp_all add: d1_def)
    have p1: "ptr_array fs1 (direct nd) m"
      unfolding fs1_def using Suc.prems(1,4) d1f by simp
    have m1: "mounted fs1" unfolding fs1_def
      by (rule mounted_disk_update[OF Suc.prems(3,4) d1f])
    have e1: "disk fs1 = Some d1" by (simp add: fs1_def)
    from Suc.hyps(2) have n: "n = m - Suc i" by simp
    note ih = Suc.hyps(1)[OF n p1 Suc.prems(2) m1 e1 BLOCK_SIZE_pos(1), of "bw + sz"]
    have wl: "wloop (contents d) (drop i (take m (direct nd))) data len off bw =
        wloop (contents d1) (drop (Suc i) (take m (direct nd))) data len 0 (bw + sz)"
      unfolding dr d1_def sz_def using True by (simp add: Let_def)
    have upd: "\<And>c'. fs1\<lparr>disk := Some (d1\<lparr>contents := c'\<rparr>)\<rparr> = fs\<lparr>disk := Some (d\<lparr>contents := c'\<rparr>)\<rparr>"
      by (simp add: fs1_def d1_def)
    from im have mx: "max (Suc i) m = max i m" by simp
    from ih show ?thesis unfolding wl st upd mx .
  qed
qed


lemma write_indirect_wloop:
  assumes "ptr_array fs (map (get32 blk) [0..<POINTERS_PER_BLOCK]) m" "mounted fs"
    "disk fs = Some d" "off < BLOCK_SIZE"
  shows "case wloop (contents d) (drop i (take m (map (get32 blk) [0..<POINTERS_PER_BLOCK])))
             data len off bw of
      (c', off', bw') \<Rightarrow>
        \<exists>i'. write_indirect fs blk data len i off bw =
               Inr (fs\<lparr>disk := Some (d\<lparr>contents := c'\<rparr>)\<rparr>, i', off', bw')"
  using assms
proof (induction "m - i" arbitrary: i fs d off bw)
  case 0
  then have mi: "m \<le> i" by simp
  then have dr: "drop i (take m (map (get32 blk) [0..<POINTERS_PER_BLOCK])) = []" by simp
  have stop: "\<not> (i < POINTERS_PER_BLOCK \<and> get32 blk i \<noteq> 0 \<and> bw < len)"
    using ptr_array_nth[OF "0.prems"(1), of i] mi by auto
  show ?case using "0.prems"(3)
    by (simp add: dr write_indirect_stop[OF stop])
next
  case (Suc n)
  then have im: "i < m" by simp
  from Suc.prems(1) have ml: "m \<le> length (map (get32 blk) [0..<POINTERS_PER_BLOCK])"
    by (simp add: ptr_array_iff)
  with im have i5: "i < POINTERS_PER_BLOCK" by simp
  define b where "b = get32 blk i"
  from i5 have bn: "map (get32 blk) [0..<POINTERS_PER_BLOCK] ! i = b" by (simp add: b_def)
  have dr: "drop i (take m (map (get32 blk) [0..<POINTERS_PER_BLOCK])) =
      b # drop (Suc i) (take m (map (get32 blk) [0..<POINTERS_PER_BLOCK]))"
    unfolding bn[symmetric] by (rule drop_take_Cons[OF im ml])
  have ub: "block_used fs b" using ptr_array_used[OF Suc.prems(1) im] by (simp only: bn)
  note bnz = block_used_nonzero[OF ub]
  note blt = block_used_lt[OF ub Suc.prems(3)]
  note fdd = mounted_fd[OF Suc.prems(2,3)]
  show ?case
  proof (cases "bw < len")
    case False
    then have stop: "\<not> (i < POINTERS_PER_BLOCK \<and> get32 blk i \<noteq> 0 \<and> bw < len)" by simp
    show ?thesis using False Suc.prems(3)
      by (simp add: dr write_indirect_stop[OF stop])
  next
    case True
    define sz where "sz = min (BLOCK_SIZE - off) (len - bw)"
    define d1 where "d1 = d\<lparr>contents := (contents d)(b :=
         (\<lambda>k. if off \<le> k \<and> k < off + sz then data (bw + (k - off)) else contents d b k))\<rparr>"
    define fs1 where "fs1 = fs\<lparr>disk := Some d1\<rparr>"
    have st: "write_indirect fs blk data len i off bw =
        write_indirect fs1 blk data len (Suc i) 0 (bw + sz)"
      using write_indirect_step[OF i5 bnz[unfolded b_def] True Suc.prems(3) fdd blt[unfolded b_def]
          Suc.prems(4), of data]
      unfolding fs1_def d1_def sz_def b_def by simp
    have d1f: "blocks d1 = blocks d" "fd d1 = fd d" by (simp_all add: d1_def)
    have p1: "ptr_array fs1 (map (get32 blk) [0..<POINTERS_PER_BLOCK]) m"
      unfolding fs1_def using Suc.prems(1,3) d1f by simp
    have m1: "mounted fs1" unfolding fs1_def
      by (rule mounted_disk_update[OF Suc.prems(2,3) d1f])
    have e1: "disk fs1 = Some d1" by (simp add: fs1_def)
    from Suc.hyps(2) have n: "n = m - Suc i" by simp
    note ih = Suc.hyps(1)[OF n p1 m1 e1 BLOCK_SIZE_pos(1), of "bw + sz"]
    have wl: "wloop (contents d) (drop i (take m (map (get32 blk) [0..<POINTERS_PER_BLOCK])))
          data len off bw =
        wloop (contents d1) (drop (Suc i) (take m (map (get32 blk) [0..<POINTERS_PER_BLOCK])))
          data len 0 (bw + sz)"
      unfolding dr d1_def sz_def using True by (simp add: Let_def)
    have upd: "\<And>c'. fs1\<lparr>disk := Some (d1\<lparr>contents := c'\<rparr>)\<rparr> = fs\<lparr>disk := Some (d\<lparr>contents := c'\<rparr>)\<rparr>"
      by (simp add: fs1_def d1_def)
    from ih show ?thesis unfolding wl st upd .
  qed
qed

lemma read_direct_step:
  assumes "i < POINTERS_PER_INODE" "direct nd ! i \<noteq> 0" "br < len" "disk fs = Some d" "0 \<le> fd d"
    "direct nd ! i < blocks d"
  shows "read_direct fs nd data len i 0 br blk =
     read_direct fs nd
       (\<lambda>k. if br \<le> k \<and> k < br + min BLOCK_SIZE (len - br)
            then contents d (direct nd ! i) (k - br) else data k)
       len (i + 1) 0 (br + min BLOCK_SIZE (len - br)) (Some (contents d (direct nd ! i)))"
  using assms
  by (subst read_direct.simps)
     (simp add: disk_read_ok memcpy_from_block_def Let_def cong: if_cong)

lemma read_indirect_stop:
  "\<not> (i < POINTERS_PER_BLOCK \<and> get32 blk i \<noteq> 0 \<and> br < len) \<Longrightarrow>
   read_indirect fs blk data len i off br buf = Inr (None, data, i, off, br, buf)"
  by (subst read_indirect.simps) auto

lemma read_indirect_step:
  assumes "i < POINTERS_PER_BLOCK" "get32 blk i \<noteq> 0" "br < len" "disk fs = Some d" "0 \<le> fd d"
    "get32 blk i < blocks d"
  shows "read_indirect fs blk data len i 0 br buf =
     read_indirect fs blk
       (\<lambda>k. if br \<le> k \<and> k < br + min BLOCK_SIZE (len - br)
            then contents d (get32 blk i) (k - br) else data k)
       len (i + 1) 0 (br + min BLOCK_SIZE (len - br)) (Some (contents d (get32 blk i)))"
  using assms
  by (subst read_indirect.simps)
     (simp add: disk_read_ok memcpy_from_block_def Let_def cong: if_cong)

lemma read_direct_rloop:
  assumes "ptr_array fs (direct nd) m" "length (direct nd) = POINTERS_PER_INODE" "mounted fs"
    "disk fs = Some d"
  shows "case rloop (contents d) (drop i (take m (direct nd))) data len br of
      (data', br') \<Rightarrow>
        \<exists>i' buf'. read_direct fs nd data len i 0 br buf = Inr (None, data', i', 0, br', buf')
           \<and> (br' < len \<longrightarrow> i' = max i m)"
proof (induction "m - i" arbitrary: i data br buf)
  case 0
  then have mi: "m \<le> i" by simp
  then have dr: "drop i (take m (direct nd)) = []" by simp
  have stop: "\<not> (i < POINTERS_PER_INODE \<and> direct nd ! i \<noteq> 0 \<and> br < len)"
    using ptr_array_nth[OF assms(1), of i] mi assms(2) by auto
  show ?case using mi
    by (simp add: dr read_direct_stop[OF stop] max_absorb1)
next
  case (Suc n)
  then have im: "i < m" by simp
  from assms(1) have ml: "m \<le> length (direct nd)" by (simp add: ptr_array_iff)
  define b where "b = direct nd ! i"
  have dr: "drop i (take m (direct nd)) = b # drop (Suc i) (take m (direct nd))"
    unfolding b_def by (rule drop_take_Cons[OF im ml])
  have ub: "block_used fs b" unfolding b_def by (rule ptr_array_used[OF assms(1) im])
  note bnz = block_used_nonzero[OF ub]
  note blt = block_used_lt[OF ub assms(4)]
  note fdd = mounted_fd[OF assms(3,4)]
  from im ml assms(2) have i5: "i < POINTERS_PER_INODE" by simp
  show ?case
  proof (cases "br < len")
    case False
    then have stop: "\<not> (i < POINTERS_PER_INODE \<and> direct nd ! i \<noteq> 0 \<and> br < len)" by simp
    show ?thesis using False
      by (simp add: dr read_direct_stop[OF stop])
  next
    case True
    define sz where "sz = min BLOCK_SIZE (len - br)"
    define data1 where "data1 = (\<lambda>k. if br \<le> k \<and> k < br + sz then contents d b (k - br) else data k)"
    have st: "read_direct fs nd data len i 0 br buf =
        read_direct fs nd data1 len (Suc i) 0 (br + sz) (Some (contents d b))"
      using read_direct_step[OF i5 bnz[unfolded b_def] True assms(4) fdd blt[unfolded b_def],
          where data=data and blk=buf]
      unfolding data1_def sz_def b_def by simp
    from Suc.hyps(2) have n: "n = m - Suc i" by simp
    note ih = Suc.hyps(1)[OF n, of data1 "br + sz" "Some (contents d b)"]
    have rl: "rloop (contents d) (drop i (take m (direct nd))) data len br =
        rloop (contents d) (drop (Suc i) (take m (direct nd))) data1 len (br + sz)"
      unfolding dr data1_def sz_def using True by (simp add: Let_def)
    from im have mx: "max (Suc i) m = max i m" by simp
    from ih show ?thesis unfolding rl st mx .
  qed
qed

lemma read_indirect_rloop:
  assumes "ptr_array fs (map (get32 blk) [0..<POINTERS_PER_BLOCK]) m" "mounted fs"
    "disk fs = Some d"
  shows "case rloop (contents d) (drop i (take m (map (get32 blk) [0..<POINTERS_PER_BLOCK])))
             data len br of
      (data', br') \<Rightarrow>
        \<exists>i' buf'. read_indirect fs blk data len i 0 br buf = Inr (None, data', i', 0, br', buf')"
proof (induction "m - i" arbitrary: i data br buf)
  case 0
  then have mi: "m \<le> i" by simp
  then have dr: "drop i (take m (map (get32 blk) [0..<POINTERS_PER_BLOCK])) = []" by simp
  have stop: "\<not> (i < POINTERS_PER_BLOCK \<and> get32 blk i \<noteq> 0 \<and> br < len)"
    using ptr_array_nth[OF assms(1), of i] mi by auto
  show ?case by (simp add: dr read_indirect_stop[OF stop])
next
  case (Suc n)
  then have im: "i < m" by simp
  from assms(1) have ml: "m \<le> length (map (get32 blk) [0..<POINTERS_PER_BLOCK])"
    by (simp add: ptr_array_iff)
  with im have i5: "i < POINTERS_PER_BLOCK" by simp
  define b where "b = get32 blk i"
  from i5 have bn: "map (get32 blk) [0..<POINTERS_PER_BLOCK] ! i = b" by (simp add: b_def)
  have dr: "drop i (take m (map (get32 blk) [0..<POINTERS_PER_BLOCK])) =
      b # drop (Suc i) (take m (map (get32 blk) [0..<POINTERS_PER_BLOCK]))"
    unfolding bn[symmetric] by (rule drop_take_Cons[OF im ml])
  have ub: "block_used fs b" using ptr_array_used[OF assms(1) im] by (simp only: bn)
  note bnz = block_used_nonzero[OF ub]
  note blt = block_used_lt[OF ub assms(3)]
  note fdd = mounted_fd[OF assms(2,3)]
  show ?case
  proof (cases "br < len")
    case False
    then have stop: "\<not> (i < POINTERS_PER_BLOCK \<and> get32 blk i \<noteq> 0 \<and> br < len)" by simp
    show ?thesis using False
      by (simp add: dr read_indirect_stop[OF stop])
  next
    case True
    define sz where "sz = min BLOCK_SIZE (len - br)"
    define data1 where "data1 = (\<lambda>k. if br \<le> k \<and> k < br + sz then contents d b (k - br) else data k)"
    have st: "read_indirect fs blk data len i 0 br buf =
        read_indirect fs blk data1 len (Suc i) 0 (br + sz) (Some (contents d b))"
      using read_indirect_step[OF i5 bnz[unfolded b_def] True assms(3) fdd blt[unfolded b_def],
          where data=data and buf=buf]
      unfolding data1_def sz_def b_def by simp
    from Suc.hyps(2) have n: "n = m - Suc i" by simp
    note ih = Suc.hyps(1)[OF n, of data1 "br + sz" "Some (contents d b)"]
    have rl: "rloop (contents d) (drop i (take m (map (get32 blk) [0..<POINTERS_PER_BLOCK])))
          data len br =
        rloop (contents d) (drop (Suc i) (take m (map (get32 blk) [0..<POINTERS_PER_BLOCK])))
          data1 len (br + sz)"
      unfolding dr data1_def sz_def using True by (simp add: Let_def)
    from ih show ?thesis unfolding rl st .
  qed
qed



lemma wloop_done: "\<not> bw < len \<Longrightarrow> wloop c bs data len off bw = (c, off, bw)"
  by (cases bs) simp_all

lemma wloop_append:
  "wloop c (as @ bs) data len off bw =
     (case wloop c as data len off bw of (c1, off1, bw1) \<Rightarrow> wloop c1 bs data len off1 bw1)"
proof (induction as arbitrary: c off bw)
  case Nil
  show ?case by simp
next
  case (Cons a as)
  show ?case
  proof (cases "bw < len")
    case True
    then show ?thesis by (simp add: Let_def Cons.IH fun_upd_def)
  next
    case False
    then show ?thesis by (simp add: wloop_done)
  qed
qed

lemma wloop_other:
  "b \<notin> set bs \<Longrightarrow> fst (wloop c bs data len off bw) b = c b"
proof (induction bs arbitrary: c off bw)
  case Nil
  show ?case by simp
next
  case (Cons a bs)
  then have "b \<noteq> a" "b \<notin> set bs" by simp_all
  with Cons.IH show ?case by (simp add: Let_def)
qed

lemma wloop_count:
  "off < BLOCK_SIZE \<Longrightarrow> bw \<le> len \<Longrightarrow>
   snd (snd (wloop c bs data len off bw)) = min len (bw + (length bs * BLOCK_SIZE - off))"
proof (induction bs arbitrary: c off bw)
  case Nil
  then show ?case by simp
next
  case (Cons a bs)
  show ?case
  proof (cases "bw < len")
    case False
    with Cons.prems show ?thesis by simp
  next
    case True
    define sz where "sz = min (BLOCK_SIZE - off) (len - bw)"
    from True have le: "bw + sz \<le> len" by (simp add: sz_def)
    have "snd (snd (wloop c (a # bs) data len off bw)) =
        min len (bw + sz + (length bs * BLOCK_SIZE - 0))"
      using True Cons.IH[OF BLOCK_SIZE_pos(1) le] by (simp add: Let_def sz_def)
    also have "\<dots> = min len (bw + (length (a # bs) * BLOCK_SIZE - off))"
    proof -
      have "min len (bw + min (BLOCK_SIZE - off) (len - bw) + (N - 0)) =
          min len (bw + (BLOCK_SIZE + N - off))" for N
        using Cons.prems(1) True by arith
      then show ?thesis by (simp add: sz_def)
    qed
    finally show ?thesis .
  qed
qed

lemma wloop_content:
  assumes "distinct bs" "j < length bs" "r < BLOCK_SIZE" "bw + j * BLOCK_SIZE + r < len"
  shows "fst (wloop c bs data len 0 bw) (bs ! j) r = data (bw + j * BLOCK_SIZE + r)"
  using assms
proof (induction bs arbitrary: c bw j)
  case Nil
  then show ?case by simp
next
  case (Cons a bs)
  from Cons.prems(4) have lt: "bw < len" by simp
  define sz where "sz = min BLOCK_SIZE (len - bw)"
  define c1 where "c1 = c(a := (\<lambda>k. if k < sz then data (bw + k) else c a k))"
  have wl: "wloop c (a # bs) data len 0 bw = wloop c1 bs data len 0 (bw + sz)"
    using lt unfolding c1_def sz_def by (simp add: Let_def cong: if_cong)
  from Cons.prems(1) have na: "a \<notin> set bs" and db: "distinct bs" by simp_all
  show ?case
  proof (cases j)
    case 0
    from Cons.prems(3,4) have "r < sz" by (simp add: sz_def 0)
    then have "c1 a r = data (bw + r)" by (simp add: c1_def)
    with wloop_other[OF na, of c1 data len 0 "bw + sz"] show ?thesis unfolding wl 0 by simp
  next
    case (Suc j')
    with Cons.prems(4) have "BLOCK_SIZE \<le> len - bw" by simp
    then have sz: "sz = BLOCK_SIZE" by (simp add: sz_def)
    from Cons.prems(2) Suc have j': "j' < length bs" by simp
    from Cons.prems(4) Suc have "bw + BLOCK_SIZE + j' * BLOCK_SIZE + r < len" by simp
    from Cons.IH[OF db j' Cons.prems(3) this, of c1] show ?thesis
      unfolding wl sz Suc by (simp add: add.assoc)
  qed
qed

lemma rloop_done: "\<not> br < len \<Longrightarrow> rloop c bs data len br = (data, br)"
  by (cases bs) simp_all

lemma rloop_append:
  "rloop c (as @ bs) data len br =
     (case rloop c as data len br of (data1, br1) \<Rightarrow> rloop c bs data1 len br1)"
proof (induction as arbitrary: data br)
  case Nil
  show ?case by simp
next
  case (Cons a as)
  show ?case
  proof (cases "br < len")
    case True
    then show ?thesis by (simp add: Let_def Cons.IH)
  next
    case False
    then show ?thesis by (simp add: rloop_done)
  qed
qed

lemma rloop_before:
  "k < br \<Longrightarrow> fst (rloop c bs data len br) k = data k"
proof (induction bs arbitrary: data br)
  case Nil
  show ?case by simp
next
  case (Cons a bs)
  from Cons.prems have "k < br + min BLOCK_SIZE (len - br)" by simp
  from Cons.IH[OF this] Cons.prems show ?case by (simp add: Let_def)
qed

lemma rloop_count:
  "br \<le> len \<Longrightarrow> snd (rloop c bs data len br) = min len (br + length bs * BLOCK_SIZE)"
proof (induction bs arbitrary: data br)
  case Nil
  then show ?case by simp
next
  case (Cons a bs)
  show ?case
  proof (cases "br < len")
    case False
    with Cons.prems show ?thesis by simp
  next
    case True
    define sz where "sz = min BLOCK_SIZE (len - br)"
    from True have le: "br + sz \<le> len" by (simp add: sz_def)
    have "snd (rloop c (a # bs) data len br) = min len (br + sz + length bs * BLOCK_SIZE)"
      using True Cons.IH[OF le] by (simp add: Let_def sz_def)
    also have "\<dots> = min len (br + length (a # bs) * BLOCK_SIZE)"
    proof -
      have "min len (br + min BLOCK_SIZE (len - br) + N) = min len (br + (BLOCK_SIZE + N))" for N
        using True by arith
      then show ?thesis by (simp add: sz_def)
    qed
    finally show ?thesis .
  qed
qed

lemma rloop_content:
  assumes "j < length bs" "r < BLOCK_SIZE" "br + j * BLOCK_SIZE + r < len"
  shows "fst (rloop c bs data len br) (br + j * BLOCK_SIZE + r) = c (bs ! j) r"
  using assms
proof (induction bs arbitrary: data br j)
  case Nil
  then show ?case by simp
next
  case (Cons a bs)
  from Cons.prems(3) have lt: "br < len" by simp
  define sz where "sz = min BLOCK_SIZE (len - br)"
  define data1 where "data1 = (\<lambda>k. if br \<le> k \<and> k < br + sz then c a (k - br) else data k)"
  have rl: "rloop c (a # bs) data len br = rloop c bs data1 len (br + sz)"
    using lt unfolding data1_def sz_def by (simp add: Let_def)
  show ?case
  proof (cases j)
    case 0
    from Cons.prems(2,3) have r: "r < sz" by (simp add: sz_def 0)
    then have "data1 (br + r) = c a r" by (simp add: data1_def)
    with rloop_before[of "br + r" "br + sz" c bs data1 len] r show ?thesis unfolding rl 0 by simp
  next
    case (Suc j')
    with Cons.prems(3) have "BLOCK_SIZE \<le> len - br" by simp
    then have sz: "sz = BLOCK_SIZE" by (simp add: sz_def)
    from Cons.prems(1) Suc have j': "j' < length bs" by simp
    from Cons.prems(3) Suc have "br + BLOCK_SIZE + j' * BLOCK_SIZE + r < len" by simp
    from Cons.IH[OF j' Cons.prems(2) this, of data1] show ?thesis
      unfolding rl sz Suc by (simp add: add.assoc)
  qed
qed


lemma expand_post_disk:
  "expand_post fs nd new_size fs' nd' \<Longrightarrow> \<exists>d'. disk fs' = Some d'"
  by (auto simp: expand_post_def Let_def split: option.splits)

lemma expand_postD:
  assumes "expand_post fs nd new_size fs' nd'" "disk fs = Some d" "disk fs' = Some d'"
  shows "mounted fs'" "meta_data fs' = meta_data fs"
    "blocks d' = blocks d" "fd d' = fd d"
    "\<forall>b. \<not> block_used fs' b \<longrightarrow> contents d' b = contents d b"
    "wf_inode fs' nd'" "valid nd' = valid nd"
    "nblocks (isize nd) \<le> nblocks (isize nd')"
    "nblocks (isize nd') \<le> max (nblocks (isize nd)) (nblocks new_size)"
    "isize nd' = (if nblocks (isize nd) < nblocks new_size
                  then (if nblocks (isize nd') = nblocks new_size then new_size
                        else nblocks (isize nd') * BLOCK_SIZE)
                  else max (isize nd) new_size)"
    "free_count fs' + (nblocks (isize nd') - nblocks (isize nd))
       + (if nblocks (isize nd) \<le> POINTERS_PER_INODE \<and> POINTERS_PER_INODE < nblocks (isize nd')
          then 1 else 0) = free_count fs"
    "nblocks (isize nd') < nblocks new_size \<Longrightarrow>
       free_count fs' = 0 \<or> nblocks (isize nd') = POINTERS_PER_INODE + POINTERS_PER_BLOCK
       \<or> (nblocks (isize nd') = POINTERS_PER_INODE \<and> free_count fs' = 1)"
proof -
  from assms(1) have big: "mounted fs' \<and> meta_data fs' = meta_data fs
    \<and> (blocks d' = blocks d \<and> fd d' = fd d
        \<and> (\<forall>b. \<not> block_used fs' b \<longrightarrow> contents d' b = contents d b))
    \<and> wf_inode fs' nd' \<and> valid nd' = valid nd
    \<and> nblocks (isize nd) \<le> nblocks (isize nd')
    \<and> nblocks (isize nd') \<le> max (nblocks (isize nd)) (nblocks new_size)
    \<and> isize nd' = (if nblocks (isize nd) < nblocks new_size
                  then (if nblocks (isize nd') = nblocks new_size then new_size
                        else nblocks (isize nd') * BLOCK_SIZE)
                  else max (isize nd) new_size)
    \<and> free_count fs' + (nblocks (isize nd') - nblocks (isize nd))
       + (if nblocks (isize nd) \<le> POINTERS_PER_INODE \<and> POINTERS_PER_INODE < nblocks (isize nd')
          then 1 else 0) = free_count fs
    \<and> (nblocks (isize nd') < nblocks new_size \<longrightarrow>
       free_count fs' = 0 \<or> nblocks (isize nd') = POINTERS_PER_INODE + POINTERS_PER_BLOCK
       \<or> (nblocks (isize nd') = POINTERS_PER_INODE \<and> free_count fs' = 1))"
    unfolding expand_post_def Let_def assms(2,3) option.case by blast
  from big show "mounted fs'" "meta_data fs' = meta_data fs"
    "blocks d' = blocks d" "fd d' = fd d"
    "\<forall>b. \<not> block_used fs' b \<longrightarrow> contents d' b = contents d b"
    "wf_inode fs' nd'" "valid nd' = valid nd"
    "nblocks (isize nd) \<le> nblocks (isize nd')"
    "nblocks (isize nd') \<le> max (nblocks (isize nd)) (nblocks new_size)"
    "isize nd' = (if nblocks (isize nd) < nblocks new_size
                  then (if nblocks (isize nd') = nblocks new_size then new_size
                        else nblocks (isize nd') * BLOCK_SIZE)
                  else max (isize nd) new_size)"
    "free_count fs' + (nblocks (isize nd') - nblocks (isize nd))
       + (if nblocks (isize nd) \<le> POINTERS_PER_INODE \<and> POINTERS_PER_INODE < nblocks (isize nd')
          then 1 else 0) = free_count fs"
    by blast+
  assume "nblocks (isize nd') < nblocks new_size"
  with big show "free_count fs' = 0 \<or> nblocks (isize nd') = POINTERS_PER_INODE + POINTERS_PER_BLOCK
       \<or> (nblocks (isize nd') = POINTERS_PER_INODE \<and> free_count fs' = 1)"
    by blast
qed

lemma fs_load_inode_SomeD:
  assumes "fs_load_inode fs n = Inr (Some nd)" "disk fs = Some d"
  shows "0 \<le> fd d" "1 + n div INODES_PER_BLOCK < blocks d"
    "nd = get_inode (contents d (1 + n div INODES_PER_BLOCK)) (n mod INODES_PER_BLOCK)"
    "valid nd \<noteq> 0"
proof -
  have ok: "0 \<le> fd d \<and> 1 + n div INODES_PER_BLOCK < blocks d"
  proof (rule ccontr)
    assume "\<not> (0 \<le> fd d \<and> 1 + n div INODES_PER_BLOCK < blocks d)"
    from disk_read_fail[OF this] assms show False
      by (simp add: fs_load_inode_def Let_def DISK_FAILURE_def)
  qed
  then show "0 \<le> fd d" "1 + n div INODES_PER_BLOCK < blocks d" by simp_all
  from ok assms fs_load_inode_ok[of fs d n]
  show "nd = get_inode (contents d (1 + n div INODES_PER_BLOCK)) (n mod INODES_PER_BLOCK)"
    "valid nd \<noteq> 0"
    by (auto simp: Let_def split: if_splits)
qed

lemma wloop_off:
  "off < BLOCK_SIZE \<Longrightarrow> fst (snd (wloop c bs data len off bw)) < BLOCK_SIZE"
  by (induction bs arbitrary: c off bw) (simp_all add: Let_def)

lemma file_blocks_wf:
  assumes "wf_inode fs nd" "disk fs = Some d"
  shows "length (file_blocks d nd) = nblocks (isize nd)"
    "set (file_blocks d nd) \<subseteq> set (inode_block_list d nd)"
    "distinct (file_blocks d nd)"
    "POINTERS_PER_INODE < nblocks (isize nd) \<Longrightarrow> indirect nd \<notin> set (file_blocks d nd)"
    "length (take (nblocks (isize nd)) (direct nd)) = min (nblocks (isize nd)) POINTERS_PER_INODE"
    "take (nblocks (isize nd)) (direct nd) = take (min (nblocks (isize nd)) POINTERS_PER_INODE) (direct nd)"
proof -
  note W = wf_inodeD[OF assms]
  show l: "length (take (nblocks (isize nd)) (direct nd)) = min (nblocks (isize nd)) POINTERS_PER_INODE"
    using W(1) by simp
  show tk: "take (nblocks (isize nd)) (direct nd) =
      take (min (nblocks (isize nd)) POINTERS_PER_INODE) (direct nd)"
    using W(1) by (simp add: min_def)
  show "length (file_blocks d nd) = nblocks (isize nd)"
    using W(1,2) by (simp add: file_blocks_def)
  define as where "as = take (min (nblocks (isize nd)) POINTERS_PER_INODE) (direct nd)"
  define bs where "bs = take (nblocks (isize nd) - POINTERS_PER_INODE)
              (map (get32 (contents d (indirect nd))) [0..<POINTERS_PER_BLOCK])"
  have fb0: "file_blocks d nd = as @ bs" by (simp add: file_blocks_def tk as_def bs_def)
  show "set (file_blocks d nd) \<subseteq> set (inode_block_list d nd)"
    "distinct (file_blocks d nd)"
    "POINTERS_PER_INODE < nblocks (isize nd) \<Longrightarrow> indirect nd \<notin> set (file_blocks d nd)"
  proof -
    have "set (file_blocks d nd) \<subseteq> set (inode_block_list d nd) \<and> distinct (file_blocks d nd)
      \<and> (POINTERS_PER_INODE < nblocks (isize nd) \<longrightarrow> indirect nd \<notin> set (file_blocks d nd))"
    proof (cases "POINTERS_PER_INODE < nblocks (isize nd)")
      case True
      from inode_block_list_indirect[OF W(3) block_used_nonzero[OF W(4)[OF True]] W(5)[OF True]]
      have ibl: "inode_block_list d nd = as @ indirect nd # bs" by (simp add: as_def bs_def)
      from W(7) have "distinct (as @ indirect nd # bs)" by (simp only: ibl)
      then show ?thesis unfolding ibl fb0 by auto
    next
      case False
      then have "indirect nd = 0" by (intro W(6)) simp
      from inode_block_list_direct[OF W(3) this]
      have ibl: "inode_block_list d nd = as" by (simp add: as_def)
      from False have "bs = []" by (simp add: bs_def)
      with W(7) False show ?thesis unfolding ibl fb0 by simp
    qed
    then show "set (file_blocks d nd) \<subseteq> set (inode_block_list d nd)"
      "distinct (file_blocks d nd)"
      "POINTERS_PER_INODE < nblocks (isize nd) \<Longrightarrow> indirect nd \<notin> set (file_blocks d nd)"
      by blast+
  qed
qed



lemma wrap_index: "POINTERS_PER_INODE \<le> i \<Longrightarrow> i < U64 \<Longrightarrow> (i + U64 - POINTERS_PER_INODE) mod U64 = i - POINTERS_PER_INODE"
proof -
  assume a: "POINTERS_PER_INODE \<le> i" "i < U64"
  then have eq: "i + U64 - POINTERS_PER_INODE = (i - POINTERS_PER_INODE) + U64" by simp
  from a have "i - POINTERS_PER_INODE < U64" by simp
  then show ?thesis unfolding eq by simp
qed

lemma fs_write_wf:
  assumes m: "mounted fs" and d: "disk fs = Some d" and u: "blocks d \<le> U32"
    and ld: "fs_load_inode fs n = Inr (Some nd)" and w: "wf_inode fs nd"
    and o: "offset + len + BLOCK_SIZE \<le> U64"
  shows "\<exists>fs1 nd1 d1 c' off' bw'.
      expand_post fs nd (offset + len) fs1 nd1 \<and> disk fs1 = Some d1
    \<and> wloop (contents d1) (drop (offset div BLOCK_SIZE) (file_blocks d1 nd1)) data len
         (offset mod BLOCK_SIZE) 0 = (c', off', bw')
    \<and> fs_write fs n data len offset =
        Inr (fs1\<lparr>disk := Some (d1\<lparr>contents := c'(1 + n div INODES_PER_BLOCK :=
               set_inode (c' (1 + n div INODES_PER_BLOCK)) (n mod INODES_PER_BLOCK) nd1)\<rparr>)\<rparr>,
             to_ssize bw')"
proof -
  from o BLOCK_SIZE_pos(1) have "offset + len < U64" by linarith
  then have om: "(offset + len) mod U64 = offset + len" by simp
  from fs_expand_file_wf[OF m d u w o] obtain fs1 nd1 where
    e: "fs_expand_file fs nd (offset + len) = Inr (fs1, nd1)"
    and ep: "expand_post fs nd (offset + len) fs1 nd1" by blast
  from expand_post_disk[OF ep] obtain d1 where d1: "disk fs1 = Some d1" by blast
  note EP = expand_postD[OF ep d d1]
  note m1 = EP(1) and w1 = EP(6)
  note W1 = wf_inodeD[OF w1 d1]
  note FB = file_blocks_wf[OF w1 d1]
  define nb' where "nb' = nblocks (isize nd1)"
  define i where "i = offset div BLOCK_SIZE"
  define off where "off = offset mod BLOCK_SIZE"
  define mm where "mm = min nb' POINTERS_PER_INODE"
  define as where "as = take mm (direct nd1)"
  define es where "es = map (get32 (contents d1 (indirect nd1))) [0..<POINTERS_PER_BLOCK]"
  define bs where "bs = take (nb' - POINTERS_PER_INODE) es"
  have offlt: "off < BLOCK_SIZE" by (simp add: off_def)
  have fb: "file_blocks d1 nd1 = as @ bs"
    by (simp add: file_blocks_def FB(6) as_def bs_def es_def mm_def nb'_def)
  have las: "length as = mm" using W1(1) by (simp add: as_def mm_def)
  obtain c2 off2 bw2 where wl2: "wloop (contents d1) (drop i as) data len off 0 = (c2, off2, bw2)"
    by (cases "wloop (contents d1) (drop i as) data len off 0") auto
  from write_direct_wloop[OF W1(3) W1(1) m1 d1 offlt, where i=i and data=data and len=len and bw=0] wl2
  obtain i2 where
    wd: "write_direct fs1 nd1 data len i off 0 =
          Inr (None, fs1\<lparr>disk := Some (d1\<lparr>contents := c2\<rparr>)\<rparr>, i2, off2, bw2)"
    and i2: "bw2 < len \<longrightarrow> i2 = max i mm"
    by (auto simp: as_def mm_def nb'_def)
  define d2 where "d2 = d1\<lparr>contents := c2\<rparr>"
  define fs2 where "fs2 = fs1\<lparr>disk := Some d2\<rparr>"
  have d2f: "blocks d2 = blocks d1" "fd d2 = fd d1" by (simp_all add: d2_def)
  have m2: "mounted fs2" unfolding fs2_def by (rule mounted_disk_update[OF m1 d1 d2f])
  have e2: "disk fs2 = Some d2" by (simp add: fs2_def)
  have off2lt: "off2 < BLOCK_SIZE" using wloop_off[OF offlt, where c="contents d1" and bs="drop i as" and data=data and len=len and bw=0]
    by (simp add: wl2)
  obtain c3 off3 bw3 where wl3: "wloop c2 (drop (i - mm) bs) data len off2 bw2 = (c3, off3, bw3)"
    by (cases "wloop c2 (drop (i - mm) bs) data len off2 bw2") auto
  have total: "wloop (contents d1) (drop i (file_blocks d1 nd1)) data len off 0 = (c3, off3, bw3)"
    by (simp add: fb las wloop_append wl2 wl3)
  have mid: "\<exists>i3. (if bw2 < len \<and> indirect nd1 \<noteq> 0 then
         (case disk_read (disk fs2) (indirect nd1) of
            r \<Rightarrow>
              if read_status r = 0 then Inl ExitFailure
              else
                (case r of
                   None \<Rightarrow> Inl Indeterminate
                 | Some indirect_block \<Rightarrow>
                     write_indirect fs2 indirect_block data len
                       ((i2 + U64 - POINTERS_PER_INODE) mod U64) off2 bw2))
       else Inr (fs2, i2, off2, bw2)) = Inr (fs1\<lparr>disk := Some (d1\<lparr>contents := c3\<rparr>)\<rparr>, i3, off3, bw3)"
  proof (cases "bw2 < len \<and> indirect nd1 \<noteq> 0")
    case True
    then have lt: "bw2 < len" and nz: "indirect nd1 \<noteq> 0" by simp_all
    from nz W1(6) have big: "POINTERS_PER_INODE < nb'" unfolding nb'_def by fastforce
    then have mm5: "mm = POINTERS_PER_INODE" by (simp add: mm_def)
    from i2 lt have i2e: "i2 = max i POINTERS_PER_INODE" by (simp add: mm5)
    have "i \<le> offset" by (simp add: i_def)
    with o BLOCK_SIZE_pos(1) have "i < U64" by linarith
    then have "i2 < U64" by (simp add: i2e POINTERS_PER_INODE_def U64_def)
    with i2e have j: "(i2 + U64 - POINTERS_PER_INODE) mod U64 = i - mm"
      by (simp add: wrap_index mm5)
    have ui: "block_used fs1 (indirect nd1)" by (rule W1(4)[OF big[unfolded nb'_def]])
    note ilt = block_used_lt[OF ui d1]
    have rd: "disk_read (disk fs2) (indirect nd1) = Some (c2 (indirect nd1))"
      using disk_read_ok[of d2 "indirect nd1"] mounted_fd[OF m2 e2] ilt
      by (simp add: e2 d2_def)
    have "indirect nd1 \<notin> set (file_blocks d1 nd1)" by (rule FB(4)[OF big[unfolded nb'_def]])
    then have "indirect nd1 \<notin> set as" by (simp add: fb)
    then have "indirect nd1 \<notin> set (drop i as)" by (auto dest: in_set_dropD)
    from wloop_other[OF this, where c="contents d1" and data=data and len=len and off=off and bw=0]
    have c2i: "c2 (indirect nd1) = contents d1 (indirect nd1)" by (simp add: wl2)
    have pe: "ptr_array fs2 (map (get32 (contents d1 (indirect nd1))) [0..<POINTERS_PER_BLOCK])
        (nb' - POINTERS_PER_INODE)"
      unfolding fs2_def using W1(5)[OF big[unfolded nb'_def]] d2f d1 by (simp add: nb'_def)
    from write_indirect_wloop[OF pe m2 e2 off2lt, where i="i - mm" and data=data and len=len and bw=bw2] wl3
    obtain i3 where "write_indirect fs2 (contents d1 (indirect nd1)) data len (i - mm) off2 bw2 =
        Inr (fs2\<lparr>disk := Some (d2\<lparr>contents := c3\<rparr>)\<rparr>, i3, off3, bw3)"
      by (auto simp: bs_def es_def d2_def)
    then show ?thesis using True unfolding rd c2i j by (simp add: fs2_def d2_def)
  next
    case False
    have "(c3, off3, bw3) = (c2, off2, bw2)"
    proof (cases "bw2 < len")
      case True
      with False have z: "indirect nd1 = 0" by simp
      have "\<not> POINTERS_PER_INODE < nb'"
      proof
        assume "POINTERS_PER_INODE < nb'"
        from block_used_nonzero[OF W1(4)[OF this[unfolded nb'_def]]] z show False by simp
      qed
      then have "bs = []" by (simp add: bs_def)
      with wl3 show ?thesis by simp
    next
      case False
      from wloop_done[OF this] wl3 show ?thesis by simp
    qed
    with False show ?thesis by (auto simp: fs2_def d2_def)
  qed
  then obtain i3 where mid': "(if bw2 < len \<and> indirect nd1 \<noteq> 0 then
         (case disk_read (disk fs2) (indirect nd1) of
            r \<Rightarrow>
              if read_status r = 0 then Inl ExitFailure
              else
                (case r of
                   None \<Rightarrow> Inl Indeterminate
                 | Some indirect_block \<Rightarrow>
                     write_indirect fs2 indirect_block data len
                       ((i2 + U64 - POINTERS_PER_INODE) mod U64) off2 bw2))
       else Inr (fs2, i2, off2, bw2)) = Inr (fs1\<lparr>disk := Some (d1\<lparr>contents := c3\<rparr>)\<rparr>, i3, off3, bw3)"
    by blast
  note L = fs_load_inode_SomeD[OF ld d]
  define d3 where "d3 = d1\<lparr>contents := c3\<rparr>"
  define fs3 where "fs3 = fs1\<lparr>disk := Some d3\<rparr>"
  have sv: "fs_save_inode fs3 n nd1 =
     Inr (fs3\<lparr>disk := Some (d3\<lparr>contents := (contents d3)(1 + n div INODES_PER_BLOCK :=
        set_inode (contents d3 (1 + n div INODES_PER_BLOCK)) (n mod INODES_PER_BLOCK) nd1)\<rparr>)\<rparr>, True)"
    by (rule fs_save_inode_ok) (use L EP(3,4) in \<open>simp_all add: fs3_def d3_def\<close>)
  have "fs_write fs n data len offset =
        Inr (fs1\<lparr>disk := Some (d1\<lparr>contents := c3(1 + n div INODES_PER_BLOCK :=
               set_inode (c3 (1 + n div INODES_PER_BLOCK)) (n mod INODES_PER_BLOCK) nd1)\<rparr>)\<rparr>,
             to_ssize bw3)"
    unfolding fs_write_def
    apply (simp only: ld sum.case option.case om e prod.case Let_def
        wd[unfolded i_def off_def, folded d2_def, folded fs2_def] mid' sv[unfolded fs3_def d3_def])
    apply (simp add: )
    done
  with ep d1 total[unfolded i_def off_def] show ?thesis by blast
qed

lemma count_arith:
  "(nb - offset div BLOCK_SIZE) * BLOCK_SIZE - offset mod BLOCK_SIZE = nb * BLOCK_SIZE - offset"
proof -
  have eq: "offset div BLOCK_SIZE * BLOCK_SIZE + offset mod BLOCK_SIZE = offset"
    by (rule div_mult_mod_eq)
  show ?thesis
  proof (cases "offset div BLOCK_SIZE < nb")
    case True
    have "(nb - offset div BLOCK_SIZE) * BLOCK_SIZE = nb * BLOCK_SIZE - offset div BLOCK_SIZE * BLOCK_SIZE"
      by (rule diff_mult_distrib)
    with eq show ?thesis by linarith
  next
    case False
    then have "nb \<le> offset div BLOCK_SIZE" by simp
    from mult_le_mono1[OF this, of BLOCK_SIZE] eq have "nb * BLOCK_SIZE \<le> offset" by linarith
    with False show ?thesis by simp
  qed
qed

lemma wf_inode_lt:
  assumes "wf_inode fs nd" "disk fs = Some d" "blocks d \<le> U32"
  shows "isize nd < U32" "\<forall>p \<in> set (direct nd). p < U32" "indirect nd < U32"
proof -
  note W = wf_inodeD[OF assms(1,2)]
  from UPPER_ROUND_U32(2)[OF W(2)] BLOCK_SIZE_pos(1) show "isize nd < U32" by linarith
  have u0: "0 < U32" by (simp add: U32_def)
  show "\<forall>p \<in> set (direct nd). p < U32"
  proof
    fix p assume "p \<in> set (direct nd)"
    then obtain k where k: "k < length (direct nd)" "direct nd ! k = p"
      by (auto simp: in_set_conv_nth)
    show "p < U32"
    proof (cases "k < min (nblocks (isize nd)) POINTERS_PER_INODE")
      case True
      from block_used_lt[OF ptr_array_used[OF W(3) True] assms(2)] k assms(3) show ?thesis by simp
    next
      case False
      with ptr_array_nth[OF W(3) k(1)] k u0 show ?thesis by auto
    qed
  qed
  show "indirect nd < U32"
  proof (cases "POINTERS_PER_INODE < nblocks (isize nd)")
    case True
    from block_used_lt[OF W(4)[OF True] assms(2)] assms(3) show ?thesis by simp
  next
    case False
    then have "indirect nd = 0" by (intro W(6)) simp
    with u0 show ?thesis by simp
  qed
qed

lemma get_inode_set_inode_wf:
  assumes "wf_inode fs nd" "disk fs = Some d" "blocks d \<le> U32" "valid nd < U32"
  shows "get_inode (set_inode b j nd) j = nd"
proof -
  note W = wf_inodeD[OF assms(1,2)]
  note lt = wf_inode_lt[OF assms(1,2,3)]
  from lt(2) have "map (\<lambda>v. v mod U32) (direct nd) = direct nd" by (simp add: map_idI)
  with get_inode_set_inode_same[OF W(1), of b j] lt(1,3) assms(4) show ?thesis by simp
qed

lemma fs_write_result:
  assumes m: "mounted fs" and d: "disk fs = Some d" and u: "blocks d \<le> U32"
    and ld: "fs_load_inode fs n = Inr (Some nd)" and w: "wf_inode fs nd"
    and o: "offset + len + BLOCK_SIZE \<le> U64"
  shows "\<exists>fs1 nd1 d1 c'.
      expand_post fs nd (offset + len) fs1 nd1 \<and> disk fs1 = Some d1
    \<and> c' = fst (wloop (contents d1) (drop (offset div BLOCK_SIZE) (file_blocks d1 nd1)) data len
         (offset mod BLOCK_SIZE) 0)
    \<and> fs_write fs n data len offset =
        Inr (fs1\<lparr>disk := Some (d1\<lparr>contents := c'(1 + n div INODES_PER_BLOCK :=
               set_inode (c' (1 + n div INODES_PER_BLOCK)) (n mod INODES_PER_BLOCK) nd1)\<rparr>)\<rparr>,
             int (min len (nblocks (isize nd1) * BLOCK_SIZE - offset)))
    \<and> fs_load_inode (fs1\<lparr>disk := Some (d1\<lparr>contents := c'(1 + n div INODES_PER_BLOCK :=
               set_inode (c' (1 + n div INODES_PER_BLOCK)) (n mod INODES_PER_BLOCK) nd1)\<rparr>)\<rparr>) n
        = Inr (Some nd1)"
proof -
  from fs_write_wf[OF m d u ld w o, of data] obtain fs1 nd1 d1 c' off' bw' where
    ep: "expand_post fs nd (offset + len) fs1 nd1" and d1: "disk fs1 = Some d1"
    and wl: "wloop (contents d1) (drop (offset div BLOCK_SIZE) (file_blocks d1 nd1)) data len
         (offset mod BLOCK_SIZE) 0 = (c', off', bw')"
    and fw: "fs_write fs n data len offset =
        Inr (fs1\<lparr>disk := Some (d1\<lparr>contents := c'(1 + n div INODES_PER_BLOCK :=
               set_inode (c' (1 + n div INODES_PER_BLOCK)) (n mod INODES_PER_BLOCK) nd1)\<rparr>)\<rparr>,
             to_ssize bw')"
    by blast
  note EP = expand_postD[OF ep d d1]
  note W1 = wf_inodeD[OF EP(6) d1]
  note FB = file_blocks_wf[OF EP(6) d1]
  note L = fs_load_inode_SomeD[OF ld d]
  have "off' = fst (snd (wloop (contents d1) (drop (offset div BLOCK_SIZE) (file_blocks d1 nd1)) data len
         (offset mod BLOCK_SIZE) 0))" by (simp add: wl)
  have "bw' = snd (snd (wloop (contents d1) (drop (offset div BLOCK_SIZE) (file_blocks d1 nd1)) data len
         (offset mod BLOCK_SIZE) 0))" by (simp add: wl)
  also have "\<dots> = min len (0 + (length (drop (offset div BLOCK_SIZE) (file_blocks d1 nd1)) * BLOCK_SIZE
       - offset mod BLOCK_SIZE))"
    by (rule wloop_count) simp_all
  also have "\<dots> = min len (nblocks (isize nd1) * BLOCK_SIZE - offset)"
    by (simp add: FB(1) count_arith)
  finally have bw: "bw' = min len (nblocks (isize nd1) * BLOCK_SIZE - offset)" .
  have "nblocks (isize nd1) * BLOCK_SIZE < 2 ^ 63"
    using mult_le_mono1[OF W1(2), of BLOCK_SIZE]
    by (simp add: POINTERS_PER_INODE_def POINTERS_PER_BLOCK_def BLOCK_SIZE_def)
  then have "bw' < 2 ^ 63" unfolding bw by simp
  then have ts: "to_ssize bw' = int bw'" by (simp add: to_ssize_def)
  have c': "c' = fst (wloop (contents d1) (drop (offset div BLOCK_SIZE) (file_blocks d1 nd1)) data len
         (offset mod BLOCK_SIZE) 0)" by (simp add: wl)
  have vl: "valid nd1 < U32" "valid nd1 \<noteq> 0"
    using EP(7) L(3,4) get_inode_lt(1) by simp_all
  have u1: "blocks d1 \<le> U32" using EP(3) u by simp
  note gs = get_inode_set_inode_wf[OF EP(6) d1 u1 vl(1)]
  have ld': "fs_load_inode (fs1\<lparr>disk := Some (d1\<lparr>contents := c'(1 + n div INODES_PER_BLOCK :=
               set_inode (c' (1 + n div INODES_PER_BLOCK)) (n mod INODES_PER_BLOCK) nd1)\<rparr>)\<rparr>) n
        = Inr (Some nd1)"
    using fs_load_inode_ok[of "fs1\<lparr>disk := Some (d1\<lparr>contents := c'(1 + n div INODES_PER_BLOCK :=
               set_inode (c' (1 + n div INODES_PER_BLOCK)) (n mod INODES_PER_BLOCK) nd1)\<rparr>)\<rparr>"
          "d1\<lparr>contents := c'(1 + n div INODES_PER_BLOCK :=
               set_inode (c' (1 + n div INODES_PER_BLOCK)) (n mod INODES_PER_BLOCK) nd1)\<rparr>" n]
      L(1,2) EP(3,4) vl(2)
    by (simp add: gs Let_def)
  note fw' = fw[unfolded ts, unfolded bw]
  show ?thesis
    apply (rule exI[of _ fs1], rule exI[of _ nd1], rule exI[of _ d1], rule exI[of _ c'])
    apply (intro conjI)
        apply (rule ep)
       apply (rule d1)
      apply (rule c')
     apply (rule fw')
    apply (rule ld')
    done
qed

subsection \<open>fs\_write on well-formed inodes\<close>

lemma fs_stat_load: "fs_load_inode fs n = Inr (Some nd) \<Longrightarrow> fs_stat fs n = Inr (int (isize nd))"
  by (simp add: fs_stat_def)

lemma expand_size_mono:
  assumes "expand_post fs nd new_size fs' nd'" "disk fs = Some d" "disk fs' = Some d'"
  shows "isize nd \<le> isize nd'"
proof -
  note EP = expand_postD[OF assms]
  show ?thesis
  proof (cases "nblocks (isize nd) < nblocks new_size")
    case False
    with EP(10) show ?thesis by simp
  next
    case True
    show ?thesis
    proof (cases "nblocks (isize nd') = nblocks new_size")
      case eq: True
      have "isize nd \<le> new_size"
      proof (rule ccontr)
        assume "\<not> isize nd \<le> new_size"
        then have "new_size \<le> isize nd" by simp
        from nblocks_mono[OF this] True show False by simp
      qed
      with EP(10) True eq show ?thesis by simp
    next
      case False
      from mult_le_mono1[OF EP(8), of BLOCK_SIZE] le_nblocks_mult[of "isize nd"]
      have "isize nd \<le> nblocks (isize nd') * BLOCK_SIZE" by linarith
      with EP(10) True False show ?thesis by simp
    qed
  qed
qed

lemma expand_size_covers:
  assumes "expand_post fs nd (offset + len) fs' nd'" "disk fs = Some d" "disk fs' = Some d'"
    "0 < min len (nblocks (isize nd') * BLOCK_SIZE - offset)"
  shows "offset + min len (nblocks (isize nd') * BLOCK_SIZE - offset) \<le> isize nd'"
proof -
  note EP = expand_postD[OF assms(1,2,3)]
  show ?thesis
  proof (cases "nblocks (isize nd) < nblocks (offset + len)")
    case False
    with EP(10) have "offset + len \<le> isize nd'" by simp
    then show ?thesis by simp
  next
    case True
    show ?thesis
    proof (cases "nblocks (isize nd') = nblocks (offset + len)")
      case eq: True
      with EP(10) True have "isize nd' = offset + len" by simp
      then show ?thesis by simp
    next
      case False
      with EP(10) True have e: "isize nd' = nblocks (isize nd') * BLOCK_SIZE" by simp
      have "0 < min len (N - offset) \<Longrightarrow> offset + min len (N - offset) \<le> N" for N :: nat
        by arith
      from this[OF assms(4)] show ?thesis by (simp only: e[symmetric])
    qed
  qed
qed

lemma example_image_fs_mount:
  "fs_mount junk unmounted_fs (Some example_image) = Inr (example_image_fs, True)"
  unfolding example_image_fs_def by (rule ex_mount)

lemma example_image_fs_mounted: "mounted example_image_fs"
  by (simp add: mounted_def example_image_fs_def example_image_def MAGIC_NUMBER_def
      INODES_PER_BLOCK_def U32_def)

lemma example_image_fs_disk:
  "disk example_image_fs = Some example_image" "blocks example_image \<le> U32"
  by (simp_all add: example_image_fs_def example_image_def U32_def)

lemma example_image_fs_free: "free_count example_image_fs = 2"
  by (simp add: free_count_def example_image_fs_def example_image_def upt_rec)

lemma example_image_fs_load:
  "fs_load_inode example_image_fs 0 =
     Inr (Some \<lparr>valid = 1, isize = 100, direct = [3, 0, 0, 0, 0], indirect = 0\<rparr>)"
  by (simp add: fs_load_inode_def example_image_fs_def example_image_def disk_read_ok
      INODES_PER_BLOCK_def get_inode_set_inode_same POINTERS_PER_INODE_def U32_def)

lemma example_image_fs_wf:
  "wf_inode example_image_fs \<lparr>valid = 1, isize = 100, direct = [3, 0, 0, 0, 0], indirect = 0\<rparr>"
proof (rule wf_inodeI[where d=example_image and nb=1])
  show "disk example_image_fs = Some example_image" by (simp add: example_image_fs_def)
  show "length (direct \<lparr>valid = 1, isize = 100, direct = [3, 0, 0, 0, 0], indirect = 0\<rparr>)
      = POINTERS_PER_INODE" by (simp add: POINTERS_PER_INODE_def)
  show "nblocks (isize \<lparr>valid = 1, isize = 100, direct = [3, 0, 0, 0, 0], indirect = 0\<rparr>) = 1"
    by (simp add: nblocks_def BLOCK_SIZE_def)
  show "1 \<le> POINTERS_PER_INODE + POINTERS_PER_BLOCK" by (simp add: POINTERS_PER_INODE_def)
  have "block_used example_image_fs 3"
    by (simp add: block_used_def example_image_fs_def example_image_def)
  then show "ptr_array example_image_fs
      (direct \<lparr>valid = 1, isize = 100, direct = [3, 0, 0, 0, 0], indirect = 0\<rparr>)
      (min 1 POINTERS_PER_INODE)"
    by (auto simp: ptr_array_iff POINTERS_PER_INODE_def nth_Cons')
  show "POINTERS_PER_INODE < 1 \<Longrightarrow> block_used example_image_fs
      (indirect \<lparr>valid = 1, isize = 100, direct = [3, 0, 0, 0, 0], indirect = 0\<rparr>)"
    by (simp add: POINTERS_PER_INODE_def)
  show "POINTERS_PER_INODE < 1 \<Longrightarrow> ptr_array example_image_fs
      (map (get32 (contents example_image
          (indirect \<lparr>valid = 1, isize = 100, direct = [3, 0, 0, 0, 0], indirect = 0\<rparr>)))
        [0..<POINTERS_PER_BLOCK]) (1 - POINTERS_PER_INODE)"
    by (simp add: POINTERS_PER_INODE_def)
  show "1 \<le> POINTERS_PER_INODE \<Longrightarrow>
      indirect \<lparr>valid = 1, isize = 100, direct = [3, 0, 0, 0, 0], indirect = 0\<rparr> = 0" by simp
  show "distinct (inode_block_list example_image
      \<lparr>valid = 1, isize = 100, direct = [3, 0, 0, 0, 0], indirect = 0\<rparr>)"
    by (simp add: inode_block_list_def pointer_list_def)
qed

text \<open>
  Claim C8, amended. Let \<^verbatim>\<open>fs_write\<close> be called for a valid inode of a mounted file system
  that is well-formed (it has exactly the blocks that its size needs, all of them
  marked as not free, invariants 2 to 5 of the data model), on a disk whose block
  numbers fit the 32-bit pointers, with \<open>offset + length\<close> at least a block below
  \<open>2^64\<close>. Then \<^verbatim>\<open>fs_write\<close> returns a number \<open>bytes_written\<close> of bytes that is not
  negative, the size of the inode after the call is at least its size before, and it
  is at least \<open>offset + bytes_written\<close> whenever at least one byte was written.
\<close>

theorem fs_write_size_monotone:
  assumes m: "mounted fs" and d: "disk fs = Some d" and u: "blocks d \<le> U32"
    and ld: "fs_load_inode fs n = Inr (Some nd)" and w: "wf_inode fs nd"
    and o: "offset + len + BLOCK_SIZE \<le> U64"
  shows "\<exists>fs' bytes_written size'.
      fs_write fs n data len offset = Inr (fs', int bytes_written)
    \<and> fs_stat fs n = Inr (int (isize nd))
    \<and> fs_stat fs' n = Inr (int size')
    \<and> isize nd \<le> size'
    \<and> (0 < bytes_written \<longrightarrow> offset + bytes_written \<le> size')"
proof -
  from fs_write_result[OF m d u ld w o, of data] obtain fs1 nd1 d1 c' where
    ep: "expand_post fs nd (offset + len) fs1 nd1" and d1: "disk fs1 = Some d1"
    and fw: "fs_write fs n data len offset =
        Inr (fs1\<lparr>disk := Some (d1\<lparr>contents := c'(1 + n div INODES_PER_BLOCK :=
               set_inode (c' (1 + n div INODES_PER_BLOCK)) (n mod INODES_PER_BLOCK) nd1)\<rparr>)\<rparr>,
             int (min len (nblocks (isize nd1) * BLOCK_SIZE - offset)))"
    and ld1: "fs_load_inode (fs1\<lparr>disk := Some (d1\<lparr>contents := c'(1 + n div INODES_PER_BLOCK :=
               set_inode (c' (1 + n div INODES_PER_BLOCK)) (n mod INODES_PER_BLOCK) nd1)\<rparr>)\<rparr>) n
        = Inr (Some nd1)"
    by blast
  note s0 = fs_stat_load[OF ld]
  note s1 = fs_stat_load[OF ld1]
  note mono = expand_size_mono[OF ep d d1]
  have cov: "0 < min len (nblocks (isize nd1) * BLOCK_SIZE - offset) \<longrightarrow>
      offset + min len (nblocks (isize nd1) * BLOCK_SIZE - offset) \<le> isize nd1"
    using expand_size_covers[OF ep d d1] by blast
  show ?thesis
    apply (rule exI[of _ "fs1\<lparr>disk := Some (d1\<lparr>contents := c'(1 + n div INODES_PER_BLOCK :=
               set_inode (c' (1 + n div INODES_PER_BLOCK)) (n mod INODES_PER_BLOCK) nd1)\<rparr>)\<rparr>"])
    apply (rule exI[of _ "min len (nblocks (isize nd1) * BLOCK_SIZE - offset)"])
    apply (rule exI[of _ "isize nd1"])
    apply (intro conjI)
        apply (rule fw)
       apply (rule s0)
      apply (rule s1)
     apply (rule mono)
    apply (rule cov)
    done
qed

theorem fs_write_size_monotone_witness:
  "mounted example_image_fs \<and> disk example_image_fs = Some example_image
   \<and> blocks example_image \<le> U32
   \<and> fs_load_inode example_image_fs 0 =
       Inr (Some \<lparr>valid = 1, isize = 100, direct = [3, 0, 0, 0, 0], indirect = 0\<rparr>)
   \<and> wf_inode example_image_fs \<lparr>valid = 1, isize = 100, direct = [3, 0, 0, 0, 0], indirect = 0\<rparr>
   \<and> (50 :: nat) + 1 + BLOCK_SIZE \<le> U64
   \<and> (\<exists>fs' bytes_written size'.
        fs_write example_image_fs 0 zero_buffer 1 50 = Inr (fs', int bytes_written)
      \<and> fs_stat example_image_fs 0 = Inr 100
      \<and> fs_stat fs' 0 = Inr (int size')
      \<and> 100 \<le> size'
      \<and> (0 < bytes_written \<longrightarrow> 50 + bytes_written \<le> size'))"
proof -
  have h: "(50 :: nat) + 1 + BLOCK_SIZE \<le> U64"
    by (simp add: U64_def BLOCK_SIZE_def)
  from fs_write_size_monotone [OF example_image_fs_mounted example_image_fs_disk
      example_image_fs_load example_image_fs_wf h, of zero_buffer]
    example_image_fs_mounted example_image_fs_disk h example_image_fs_load example_image_fs_wf
  show ?thesis by simp
qed

lemma exhaust_two:
  assumes "expand_post fs nd (4 * BLOCK_SIZE + 1) fs' nd'" "disk fs = Some d" "disk fs' = Some d'"
    "nblocks (isize nd) = 1" "free_count fs = 2"
  shows "isize nd' = 3 * BLOCK_SIZE"
proof -
  note EP = expand_postD[OF assms(1,2,3)]
  have n5: "nblocks (4 * BLOCK_SIZE + 1) = 5" by (simp add: nblocks_def BLOCK_SIZE_def)
  define nb' where "nb' = nblocks (isize nd')"
  from EP(11) assms(4,5) have a: "free_count fs' + (nb' - 1)
      + (if 1 \<le> POINTERS_PER_INODE \<and> POINTERS_PER_INODE < nb' then 1 else 0) = 2"
    by (simp add: nb'_def)
  from EP(8) assms(4) have ge: "1 \<le> nb'" by (simp add: nb'_def)
  from a ge have le: "nb' \<le> 3" by (simp split: if_splits)
  then have lt: "nb' < 5" by simp
  from EP(12)[unfolded n5, folded nb'_def, OF lt] le
  have "free_count fs' = 0" by (auto simp: POINTERS_PER_INODE_def POINTERS_PER_BLOCK_def)
  with a le ge have "nb' = 3" by (simp add: POINTERS_PER_INODE_def split: if_splits)
  with EP(10)[unfolded n5 assms(4), folded nb'_def] show ?thesis by simp
qed

text \<open>
  Claim C8 says that after a write the size is at least the offset plus the bytes
  written. On the example image as \<^verbatim>\<open>fs_mount\<close> mounts it, with two free blocks, a write
  of one byte at offset \<open>4 * 4096\<close> to the inode of 100 bytes in one block needs four
  more blocks and gets two: it sets the size to \<open>3 * 4096\<close>, finds no block at the
  offset and returns 0.
\<close>

theorem fs_write_size_below_offset:
  "fs_mount (\<lambda>_. False) unmounted_fs (Some example_image) = Inr (example_image_fs, True)
   \<and> fs_stat example_image_fs 0 = Inr 100
   \<and> (\<exists>fs'. fs_write example_image_fs 0 zero_buffer 1 (4 * 4096) = Inr (fs', 0)
           \<and> fs_stat fs' 0 = Inr (3 * 4096))
   \<and> \<not> (4 * 4096 + 0 \<le> (3 * 4096 :: int))"
proof -
  define nd where "nd = \<lparr>valid = 1, isize = 100, direct = [3, 0, 0, 0, 0], indirect = 0\<rparr>"
  have ld: "fs_load_inode example_image_fs 0 = Inr (Some nd)"
    unfolding nd_def by (rule example_image_fs_load)
  have wf: "wf_inode example_image_fs nd" unfolding nd_def by (rule example_image_fs_wf)
  have o: "4 * BLOCK_SIZE + 1 + BLOCK_SIZE \<le> U64" by (simp add: BLOCK_SIZE_def U64_def)
  from fs_write_result[OF example_image_fs_mounted example_image_fs_disk ld wf o, of zero_buffer]
  obtain fs1 nd1 d1 c' where
    ep: "expand_post example_image_fs nd (4 * BLOCK_SIZE + 1) fs1 nd1" and d1: "disk fs1 = Some d1"
    and fw: "fs_write example_image_fs 0 zero_buffer 1 (4 * BLOCK_SIZE) =
        Inr (fs1\<lparr>disk := Some (d1\<lparr>contents := c'(1 + 0 div INODES_PER_BLOCK :=
               set_inode (c' (1 + 0 div INODES_PER_BLOCK)) (0 mod INODES_PER_BLOCK) nd1)\<rparr>)\<rparr>,
             int (min 1 (nblocks (isize nd1) * BLOCK_SIZE - 4 * BLOCK_SIZE)))"
    and ld1: "fs_load_inode (fs1\<lparr>disk := Some (d1\<lparr>contents := c'(1 + 0 div INODES_PER_BLOCK :=
               set_inode (c' (1 + 0 div INODES_PER_BLOCK)) (0 mod INODES_PER_BLOCK) nd1)\<rparr>)\<rparr>) 0
        = Inr (Some nd1)"
    by blast
  have n1: "nblocks (isize nd) = 1" by (simp add: nd_def nblocks_def BLOCK_SIZE_def)
  note sz = exhaust_two[OF ep example_image_fs_disk(1) d1 n1 example_image_fs_free]
  have bw: "min 1 (nblocks (isize nd1) * BLOCK_SIZE - 4 * BLOCK_SIZE) = 0"
    unfolding sz nblocks_mult by simp
  from fs_stat_load[OF ld] have s0: "fs_stat example_image_fs 0 = Inr 100" by (simp add: nd_def)
  from fs_stat_load[OF ld1] have s1:
    "fs_stat (fs1\<lparr>disk := Some (d1\<lparr>contents := c'(1 + 0 div INODES_PER_BLOCK :=
               set_inode (c' (1 + 0 div INODES_PER_BLOCK)) (0 mod INODES_PER_BLOCK) nd1)\<rparr>)\<rparr>) 0
      = Inr (3 * 4096)" by (simp add: sz BLOCK_SIZE_def)
  from fw[unfolded bw] have fw': "fs_write example_image_fs 0 zero_buffer 1 (4 * 4096) =
        Inr (fs1\<lparr>disk := Some (d1\<lparr>contents := c'(1 + 0 div INODES_PER_BLOCK :=
               set_inode (c' (1 + 0 div INODES_PER_BLOCK)) (0 mod INODES_PER_BLOCK) nd1)\<rparr>)\<rparr>, 0)"
    by (simp add: BLOCK_SIZE_def)
  from fw' s1 have ex: "\<exists>fs'. fs_write example_image_fs 0 zero_buffer 1 (4 * 4096) = Inr (fs', 0)
           \<and> fs_stat fs' 0 = Inr (3 * 4096)" by blast
  from example_image_fs_mount s0 ex show ?thesis by simp
qed

subsection \<open>fs\_expand\_file and exhaustion\<close>

lemma data_block_count_wf:
  assumes "wf_inode fs nd" "disk fs = Some d"
  shows "data_block_count d nd = nblocks (isize nd)"
proof -
  note W = wf_inodeD[OF assms]
  note p1 = ptr_array_pointer_list[OF W(3)]
  show ?thesis
  proof (cases "POINTERS_PER_INODE < nblocks (isize nd)")
    case True
    note nz = block_used_nonzero[OF W(4)[OF True]]
    note p2 = ptr_array_pointer_list[OF W(5)[OF True]]
    from True W(1,2) nz show ?thesis by (simp add: data_block_count_def p1 p2)
  next
    case False
    then have "indirect nd = 0" by (intro W(6)) simp
    with False W(1) show ?thesis by (simp add: data_block_count_def p1)
  qed
qed

lemma pointer_list_zeros [simp]: "pointer_list (replicate n 0) = []"
  by (cases n) (simp_all add: pointer_list_def)

lemma fresh_wf:
  assumes "mounted fs" "disk fs = Some d"
  shows "wf_inode fs (zero_inode\<lparr>valid := v\<rparr>)"
proof (rule wf_inodeI[OF assms(2), where nb=0])
  show "length (direct (zero_inode\<lparr>valid := v\<rparr>)) = POINTERS_PER_INODE"
    by (simp add: zero_inode_def)
  show "nblocks (isize (zero_inode\<lparr>valid := v\<rparr>)) = 0"
    by (simp add: zero_inode_def nblocks_def BLOCK_SIZE_def)
  show "0 \<le> POINTERS_PER_INODE + POINTERS_PER_BLOCK" by simp
  show "ptr_array fs (direct (zero_inode\<lparr>valid := v\<rparr>)) (min 0 POINTERS_PER_INODE)"
    by (simp add: ptr_array_iff zero_inode_def)
  show "POINTERS_PER_INODE < 0 \<Longrightarrow> block_used fs (indirect (zero_inode\<lparr>valid := v\<rparr>))" by simp
  show "POINTERS_PER_INODE < 0 \<Longrightarrow> ptr_array fs
      (map (get32 (contents d (indirect (zero_inode\<lparr>valid := v\<rparr>)))) [0..<POINTERS_PER_BLOCK])
      (0 - POINTERS_PER_INODE)" by simp
  show "0 \<le> POINTERS_PER_INODE \<Longrightarrow> indirect (zero_inode\<lparr>valid := v\<rparr>) = 0"
    by (simp add: zero_inode_def)
  show "distinct (inode_block_list d (zero_inode\<lparr>valid := v\<rparr>))"
    by (simp add: inode_block_list_def zero_inode_def)
qed

lemma fs_create_fresh:
  assumes m: "mounted fs" and d: "disk fs = Some d" and c: "fs_create fs = (fs1, r)" and r0: "0 \<le> r"
    and z: "get_inode (contents d (1 + nat r div INODES_PER_BLOCK))
                  (nat r mod INODES_PER_BLOCK) = zero_inode"
  shows "\<exists>d1. disk fs1 = Some d1 \<and> blocks d1 = blocks d \<and> mounted fs1
     \<and> free_count fs1 = free_count fs \<and> meta_data fs1 = meta_data fs
     \<and> fs_load_inode fs1 (nat r) = Inr (Some (zero_inode\<lparr>valid := 1\<rparr>))
     \<and> wf_inode fs1 (zero_inode\<lparr>valid := 1\<rparr>)
     \<and> nat r div INODES_PER_BLOCK < inode_blocks (meta_data fs)"
proof -
  from m d obtain bm where fd: "0 \<le> fd d" and ibd: "inode_blocks (meta_data fs) < blocks d"
    and ibs: "inode_blocks (meta_data fs) < 429496730"
    by (elim mounted_D) auto
  have small: "inode_blocks (meta_data fs) * INODES_PER_BLOCK < 2 ^ 63"
    using ibs by (simp add: INODES_PER_BLOCK_def)
  from c have c': "create_from fs (inode_blocks (meta_data fs)) 0 = (fs1, r)" by (simp add: fs_create_def)
  from create_from_spec[OF c' r0 d small]
  obtain i j where ij: "i < inode_blocks (meta_data fs)" "j < INODES_PER_BLOCK"
    "r = int (i * INODES_PER_BLOCK + j)" "i + 1 < blocks d"
    and fs1: "fs1 = fs\<lparr>disk := Some (d\<lparr>contents := (contents d)(i + 1 := set32 (contents d (i + 1)) (8 * j) 1)\<rparr>)\<rparr>"
    by auto
  let ?n = "nat r"
  have n: "?n = i * INODES_PER_BLOCK + j" unfolding ij(3) by (rule nat_int)
  have dv: "?n div INODES_PER_BLOCK = i" "?n mod INODES_PER_BLOCK = j"
    using ij(2) by (simp_all add: n)
  define d1 where "d1 = d\<lparr>contents := (contents d)(i + 1 := set32 (contents d (i + 1)) (8 * j) 1)\<rparr>"
  have e1: "disk fs1 = Some d1" "0 \<le> fd d1" "1 + ?n div INODES_PER_BLOCK < blocks d1"
    using fs1 fd ij(4) dv by (simp_all add: d1_def)
  have d1f: "blocks d1 = blocks d" "fd d1 = fd d" by (simp_all add: d1_def)
  have fs1': "fs1 = fs\<lparr>disk := Some d1\<rparr>" by (simp add: fs1 d1_def)
  have m1: "mounted fs1" unfolding fs1' by (rule mounted_disk_update[OF m d d1f])
  have fc: "free_count fs1 = free_count fs" unfolding fs1' using d d1f by simp
  have md: "meta_data fs1 = meta_data fs" by (simp add: fs1')
  from z dv have z': "get_inode (contents d (i + 1)) j = zero_inode" by simp
  have g1: "get_inode (contents d1 (1 + ?n div INODES_PER_BLOCK)) (?n mod INODES_PER_BLOCK)
      = zero_inode\<lparr>valid := 1\<rparr>"
    using z' by (simp add: dv d1_def get_inode_set_valid U32_def)
  have l1: "fs_load_inode fs1 ?n = Inr (Some (zero_inode\<lparr>valid := 1\<rparr>))"
    using fs_load_inode_ok[OF e1] g1 by (simp add: Let_def)
  note wf = fresh_wf[OF m1 e1(1), of 1]
  from ij(1) dv have tb: "?n div INODES_PER_BLOCK < inode_blocks (meta_data fs)" by simp
  show ?thesis
    apply (rule exI[of _ d1])
    apply (intro conjI)
           apply (rule e1(1))
          apply (rule d1f(1))
         apply (rule m1)
        apply (rule fc)
       apply (rule md)
      apply (rule l1)
     apply (rule wf)
    apply (rule tb)
    done
qed

lemma expand_need:
  assumes "nb' \<le> nbn"
  shows "(if nbn - nb' = 0 then new_size else (nbn - (nbn - nb')) * BLOCK_SIZE)
     = (if nb' = nbn then new_size else nb' * BLOCK_SIZE)"
  using assms by auto

lemma exhaust_three:
  assumes "expand_post fs nd (4 * BLOCK_SIZE) fs' nd'" "disk fs = Some d" "disk fs' = Some d'"
    "nblocks (isize nd) = 0" "free_count fs = 3"
  shows "isize nd' = 3 * BLOCK_SIZE"
proof -
  note EP = expand_postD[OF assms(1,2,3)]
  have n4: "nblocks (4 * BLOCK_SIZE) = 4" by (rule nblocks_mult)
  define nb' where "nb' = nblocks (isize nd')"
  from EP(11) assms(4,5) have a: "free_count fs' + nb' + (if POINTERS_PER_INODE < nb' then 1 else 0) = 3"
    by (simp add: nb'_def)
  then have le: "nb' \<le> 3" by (simp split: if_splits)
  then have lt: "nb' < 4" by simp
  from EP(12)[unfolded n4, folded nb'_def, OF lt] le
  have "free_count fs' = 0" by (auto simp: POINTERS_PER_INODE_def POINTERS_PER_BLOCK_def)
  with a le have "nb' = 3" by (simp add: POINTERS_PER_INODE_def split: if_splits)
  with EP(10) assms(4) show ?thesis by (simp add: n4 nb'_def)
qed

text \<open>
  Claim C3, amended. On a mounted file system whose block numbers fit the 32-bit
  pointers, \<^verbatim>\<open>fs_expand_file\<close> of a well-formed inode to a size \<open>new_size\<close> that is not
  below its size (and at least a block below \<open>2^64\<close>) returns with a well-formed
  inode whose size is \<open>new_size\<close> when all the blocks needed were allocated, and
  \<open>(new_blocks - need) * BLOCK_SIZE\<close> when \<open>need > 0\<close> blocks could not be allocated,
  which happens only when the free blocks or the pointers of the inode have run
  out. And when the file system has exactly 3 free data blocks and \<^verbatim>\<open>fs_create\<close> hands
  out a slot whose fields are all zero, as \<^verbatim>\<open>fs_format\<close> and \<^verbatim>\<open>fs_remove\<close> leave every invalid
  slot, a write of \<open>4 * BLOCK_SIZE\<close> bytes at offset 0 to the new inode returns
  \<open>3 * BLOCK_SIZE\<close> and sets the size to \<open>3 * BLOCK_SIZE\<close>.
\<close>

theorem fs_expand_file_truthful_size:
  assumes m: "mounted fs" and d: "disk fs = Some d" and u: "blocks d \<le> U32"
  shows "(\<forall>nd new_size.
            wf_inode fs nd \<and> isize nd \<le> new_size \<and> new_size + BLOCK_SIZE \<le> U64 \<longrightarrow>
            (\<exists>fs' nd' d'. fs_expand_file fs nd new_size = Inr (fs', nd')
               \<and> disk fs' = Some d' \<and> wf_inode fs' nd'
               \<and> data_block_count d' nd' \<le> nblocks new_size
               \<and> (let need = nblocks new_size - data_block_count d' nd'
                  in isize nd' = (if need = 0 then new_size
                                  else (nblocks new_size - need) * BLOCK_SIZE)
                   \<and> (need \<noteq> 0 \<longrightarrow>
                         free_count fs' = 0
                         \<or> data_block_count d' nd' = POINTERS_PER_INODE + POINTERS_PER_BLOCK
                         \<or> (data_block_count d' nd' = POINTERS_PER_INODE \<and> free_count fs' = 1)))))
     \<and> (\<forall>fs1 r data.
            free_count fs = 3 \<and> fs_create fs = (fs1, r) \<and> 0 \<le> r
            \<and> get_inode (contents d (1 + nat r div INODES_PER_BLOCK))
                 (nat r mod INODES_PER_BLOCK) = zero_inode \<longrightarrow>
            (\<exists>fs2. fs_write fs1 (nat r) data (4 * BLOCK_SIZE) 0 = Inr (fs2, int (3 * BLOCK_SIZE))
               \<and> fs_stat fs2 (nat r) = Inr (int (3 * BLOCK_SIZE))))"
proof (intro conjI allI impI)
  fix nd new_size
  assume a: "wf_inode fs nd \<and> isize nd \<le> new_size \<and> new_size + BLOCK_SIZE \<le> U64"
  then have w: "wf_inode fs nd" and ge: "isize nd \<le> new_size"
    and o: "new_size + BLOCK_SIZE \<le> U64" by simp_all
  from fs_expand_file_wf[OF m d u w o] obtain fs' nd' where
    e: "fs_expand_file fs nd new_size = Inr (fs', nd')"
    and ep: "expand_post fs nd new_size fs' nd'" by blast
  from expand_post_disk[OF ep] obtain d' where d': "disk fs' = Some d'" by blast
  note EP = expand_postD[OF ep d d']
  note cnt = data_block_count_wf[OF EP(6) d']
  from nblocks_mono[OF ge] have nle: "nblocks (isize nd) \<le> nblocks new_size" .
  with EP(9) have le: "nblocks (isize nd') \<le> nblocks new_size" by simp
  have sz: "isize nd' = (if nblocks (isize nd') = nblocks new_size then new_size
                         else nblocks (isize nd') * BLOCK_SIZE)"
  proof (cases "nblocks (isize nd) < nblocks new_size")
    case True
    with EP(10) show ?thesis by simp
  next
    case False
    with nle have eq: "nblocks (isize nd) = nblocks new_size" by simp
    with EP(8) le have "nblocks (isize nd') = nblocks new_size" by simp
    with EP(10) False ge show ?thesis by (simp add: max_absorb2)
  qed
  have short: "nblocks new_size - nblocks (isize nd') \<noteq> 0 \<longrightarrow>
      free_count fs' = 0
      \<or> nblocks (isize nd') = POINTERS_PER_INODE + POINTERS_PER_BLOCK
      \<or> (nblocks (isize nd') = POINTERS_PER_INODE \<and> free_count fs' = 1)"
    using EP(12) by simp
  have fin: "let need = nblocks new_size - data_block_count d' nd'
      in isize nd' = (if need = 0 then new_size else (nblocks new_size - need) * BLOCK_SIZE)
       \<and> (need \<noteq> 0 \<longrightarrow>
             free_count fs' = 0
             \<or> data_block_count d' nd' = POINTERS_PER_INODE + POINTERS_PER_BLOCK
             \<or> (data_block_count d' nd' = POINTERS_PER_INODE \<and> free_count fs' = 1))"
    unfolding Let_def cnt expand_need[OF le] using sz short by blast
  show "\<exists>fs' nd' d'. fs_expand_file fs nd new_size = Inr (fs', nd')
               \<and> disk fs' = Some d' \<and> wf_inode fs' nd'
               \<and> data_block_count d' nd' \<le> nblocks new_size
               \<and> (let need = nblocks new_size - data_block_count d' nd'
                  in isize nd' = (if need = 0 then new_size
                                  else (nblocks new_size - need) * BLOCK_SIZE)
                   \<and> (need \<noteq> 0 \<longrightarrow>
                         free_count fs' = 0
                         \<or> data_block_count d' nd' = POINTERS_PER_INODE + POINTERS_PER_BLOCK
                         \<or> (data_block_count d' nd' = POINTERS_PER_INODE \<and> free_count fs' = 1)))"
    apply (rule exI[of _ fs'], rule exI[of _ nd'], rule exI[of _ d'])
    apply (intro conjI)
        apply (rule e)
       apply (rule d')
      apply (rule EP(6))
     apply (simp only: cnt le)
    apply (rule fin)
    done
next
  fix fs1 r data
  assume a: "free_count fs = 3 \<and> fs_create fs = (fs1, r) \<and> 0 \<le> r
            \<and> get_inode (contents d (1 + nat r div INODES_PER_BLOCK))
                 (nat r mod INODES_PER_BLOCK) = zero_inode"
  then have f3: "free_count fs = 3" and c: "fs_create fs = (fs1, r)" and r0: "0 \<le> r"
    and z: "get_inode (contents d (1 + nat r div INODES_PER_BLOCK))
                 (nat r mod INODES_PER_BLOCK) = zero_inode" by simp_all
  from fs_create_fresh[OF m d c r0 z] obtain d1 where
    d1: "disk fs1 = Some d1" and b1: "blocks d1 = blocks d" and m1: "mounted fs1"
    and fc1: "free_count fs1 = free_count fs"
    and ld: "fs_load_inode fs1 (nat r) = Inr (Some (zero_inode\<lparr>valid := 1\<rparr>))"
    and wf: "wf_inode fs1 (zero_inode\<lparr>valid := 1\<rparr>)" by blast
  from b1 u have u1: "blocks d1 \<le> U32" by simp
  have o: "0 + 4 * BLOCK_SIZE + BLOCK_SIZE \<le> U64" by (simp add: BLOCK_SIZE_def U64_def)
  from fs_write_result[OF m1 d1 u1 ld wf o, of data] obtain fs' nd' d' c' where
    ep: "expand_post fs1 (zero_inode\<lparr>valid := 1\<rparr>) (0 + 4 * BLOCK_SIZE) fs' nd'"
    and d': "disk fs' = Some d'"
    and fw: "fs_write fs1 (nat r) data (4 * BLOCK_SIZE) 0 =
        Inr (fs'\<lparr>disk := Some (d'\<lparr>contents := c'(1 + nat r div INODES_PER_BLOCK :=
               set_inode (c' (1 + nat r div INODES_PER_BLOCK)) (nat r mod INODES_PER_BLOCK) nd')\<rparr>)\<rparr>,
             int (min (4 * BLOCK_SIZE) (nblocks (isize nd') * BLOCK_SIZE - 0)))"
    and ld1: "fs_load_inode (fs'\<lparr>disk := Some (d'\<lparr>contents := c'(1 + nat r div INODES_PER_BLOCK :=
               set_inode (c' (1 + nat r div INODES_PER_BLOCK)) (nat r mod INODES_PER_BLOCK) nd')\<rparr>)\<rparr>) (nat r)
        = Inr (Some nd')"
    by blast
  have n0: "nblocks (isize (zero_inode\<lparr>valid := 1\<rparr>)) = 0"
    by (simp add: zero_inode_def nblocks_def BLOCK_SIZE_def)
  from ep have ep': "expand_post fs1 (zero_inode\<lparr>valid := 1\<rparr>) (4 * BLOCK_SIZE) fs' nd'" by simp
  from exhaust_three[OF ep' d1 d' n0] fc1 f3 have sz: "isize nd' = 3 * BLOCK_SIZE" by simp
  have bw: "min (4 * BLOCK_SIZE) (nblocks (isize nd') * BLOCK_SIZE - 0) = 3 * BLOCK_SIZE"
    unfolding sz by simp
  note st = fs_stat_load[OF ld1, unfolded sz]
  show "\<exists>fs2. fs_write fs1 (nat r) data (4 * BLOCK_SIZE) 0 = Inr (fs2, int (3 * BLOCK_SIZE))
               \<and> fs_stat fs2 (nat r) = Inr (int (3 * BLOCK_SIZE))"
    apply (rule exI[of _ "fs'\<lparr>disk := Some (d'\<lparr>contents := c'(1 + nat r div INODES_PER_BLOCK :=
               set_inode (c' (1 + nat r div INODES_PER_BLOCK)) (nat r mod INODES_PER_BLOCK) nd')\<rparr>)\<rparr>"])
    apply (rule conjI)
     apply (rule fw[unfolded bw])
    apply (rule st)
    done
qed

lemma tiny_fs_mounted: "mounted tiny_fs"
  by (simp add: mounted_def tiny_fs_def example_disk_def MAGIC_NUMBER_def INODES_PER_BLOCK_def
      U32_def)

lemma tiny_fs_disk: "disk tiny_fs = Some example_disk" "blocks example_disk \<le> U32"
  by (simp_all add: tiny_fs_def example_disk_def U32_def)

lemma tiny_fs_free: "free_count tiny_fs = 3"
  by (simp add: free_count_def tiny_fs_def example_disk_def upt_rec)

lemma tiny_fs_create:
  "fs_create tiny_fs =
     (tiny_fs\<lparr>disk := Some (example_disk\<lparr>contents :=
        (contents example_disk)(1 := set32 zero_block 0 1)\<rparr>)\<rparr>, 0)"
  by (simp add: fs_create_def create_from_step find_invalid_step tiny_fs_def example_disk_def
      disk_read_ok disk_write_ok INODES_PER_BLOCK_def to_ssize_def U64_def)

lemma get_inode_zero_block_all: "get_inode zero_block j = zero_inode"
  by (simp add: get_inode_def zero_inode_def POINTERS_PER_INODE_def upt_rec eval_nat_numeral)

lemma tiny_slot_zero:
  "get_inode (contents example_disk (1 + nat 0 div INODES_PER_BLOCK)) (nat 0 mod INODES_PER_BLOCK)
     = zero_inode"
  by (simp add: example_disk_def get_inode_zero_block_all)

theorem fs_expand_file_truthful_size_witness:
  "mounted tiny_fs \<and> disk tiny_fs = Some example_disk \<and> blocks example_disk \<le> U32
   \<and> wf_inode tiny_fs (zero_inode\<lparr>valid := 1\<rparr>)
   \<and> isize (zero_inode\<lparr>valid := 1\<rparr>) \<le> 4 * BLOCK_SIZE \<and> 4 * BLOCK_SIZE + BLOCK_SIZE \<le> U64
   \<and> (\<exists>fs' nd' d'. fs_expand_file tiny_fs (zero_inode\<lparr>valid := 1\<rparr>) (4 * BLOCK_SIZE) = Inr (fs', nd')
         \<and> disk fs' = Some d' \<and> wf_inode fs' nd'
         \<and> data_block_count d' nd' \<le> nblocks (4 * BLOCK_SIZE)
         \<and> (let need = nblocks (4 * BLOCK_SIZE) - data_block_count d' nd'
            in isize nd' = (if need = 0 then 4 * BLOCK_SIZE
                            else (nblocks (4 * BLOCK_SIZE) - need) * BLOCK_SIZE)
             \<and> (need \<noteq> 0 \<longrightarrow>
                   free_count fs' = 0
                   \<or> data_block_count d' nd' = POINTERS_PER_INODE + POINTERS_PER_BLOCK
                   \<or> (data_block_count d' nd' = POINTERS_PER_INODE \<and> free_count fs' = 1))))
   \<and> free_count tiny_fs = 3
   \<and> fs_create tiny_fs =
        (tiny_fs\<lparr>disk := Some (example_disk\<lparr>contents :=
           (contents example_disk)(1 := set32 zero_block 0 1)\<rparr>)\<rparr>, 0)
   \<and> get_inode (contents example_disk (1 + nat 0 div INODES_PER_BLOCK))
        (nat 0 mod INODES_PER_BLOCK) = zero_inode
   \<and> (\<exists>fs2. fs_write (tiny_fs\<lparr>disk := Some (example_disk\<lparr>contents :=
                  (contents example_disk)(1 := set32 zero_block 0 1)\<rparr>)\<rparr>) (nat 0) zero_buffer
                (4 * BLOCK_SIZE) 0 = Inr (fs2, int (3 * BLOCK_SIZE))
         \<and> fs_stat fs2 (nat 0) = Inr (int (3 * BLOCK_SIZE)))"
proof -
  note T = fs_expand_file_truthful_size [OF tiny_fs_mounted tiny_fs_disk]
  note wf = fresh_wf[OF tiny_fs_mounted tiny_fs_disk(1), of 1]
  have h: "isize (zero_inode\<lparr>valid := 1\<rparr>) \<le> 4 * BLOCK_SIZE" "4 * BLOCK_SIZE + BLOCK_SIZE \<le> U64"
    "(0 :: int) \<le> 0"
    by (simp_all add: zero_inode_def BLOCK_SIZE_def U64_def)
  note p1 = T[THEN conjunct1, THEN spec, THEN spec, THEN mp, OF conjI[OF wf conjI[OF h(1) h(2)]]]
  note p2 = T[THEN conjunct2, THEN spec, THEN spec, THEN spec, THEN mp,
      OF conjI[OF tiny_fs_free conjI[OF tiny_fs_create conjI[OF h(3) tiny_slot_zero]]],
      of zero_buffer]
  show ?thesis
    apply (intro conjI)
              apply (rule tiny_fs_mounted)
             apply (rule tiny_fs_disk(1))
            apply (rule tiny_fs_disk(2))
           apply (rule wf)
          apply (rule h(1))
         apply (rule h(2))
        apply (rule p1)
       apply (rule tiny_fs_free)
      apply (rule tiny_fs_create)
     apply (rule tiny_slot_zero)
    apply (rule p2)
    done
qed

text \<open>
  Claim C3 says that on an image with exactly 3 free data blocks \<^verbatim>\<open>fs_create\<close> followed
  by a write of \<open>4 * BLOCK_SIZE\<close> bytes at offset 0 sets the size to \<open>3 * BLOCK_SIZE\<close> and
  returns \<open>3 * BLOCK_SIZE\<close>. \<^verbatim>\<open>fs_create\<close> sets the field \<open>valid\<close> of the slot and leaves the
  other fields as they are: on an image with 3 free data blocks whose invalid slot 0
  holds the size \<open>4 * BLOCK_SIZE\<close> and no pointer, the mount succeeds, \<^verbatim>\<open>fs_create\<close>
  returns 0, and the write finds nothing to expand and no block to write to: it
  returns 0 and leaves the size \<open>4 * BLOCK_SIZE\<close>.
\<close>

lemma get_super_stale_size:
  "get_super (contents stale_size_image 0) =
     \<lparr>magic_number = MAGIC_NUMBER, sb_blocks = 5, inode_blocks = 1, inodes = 128\<rparr>"
  by (simp add: stale_size_image_def get_super_def get32_set32 U32_def MAGIC_NUMBER_def)

lemma stale_size_mount:
  "fs_mount junk unmounted_fs (Some stale_size_image) = Inr (stale_size_fs, True)"
  apply (simp add: fs_mount_def unmounted_fs_def disk_read_def disk_sanity_check_def get_super_stale_size)
  apply (simp add: stale_size_image_def  U32_def INODES_PER_BLOCK_def fs_initialize_free_block_bitmap_def disk_blocks_def)
  apply (simp add: init_used.simps init_free.simps bitmap_set_def upt_rec)
  apply (simp add: mark_blocks.simps disk_read_def disk_sanity_check_def)
  apply (simp add: mark_blocks.simps mark_slots.simps INODES_PER_BLOCK_def mark_inode_def get_inode_def set_inode_def get32_set32 POINTERS_PER_INODE_def upt_rec mark_used.simps bitmap_set_def U32_def stale_size_fs_def stale_size_image_def)
  done

lemma stale_size_free: "free_count stale_size_fs = 3"
  by (simp add: free_count_def stale_size_fs_def stale_size_image_def upt_rec)

lemma stale_size_inode:
  "get_inode (contents stale_size_image (Suc 0)) 0 =
      \<lparr>valid = 0, isize = 4 * 4096, direct = [0, 0, 0, 0, 0], indirect = 0\<rparr>"
proof -
  have c: "contents stale_size_image (Suc 0) = set_inode zero_block 0
               \<lparr>valid = 0, isize = 4 * 4096, direct = [0, 0, 0, 0, 0], indirect = 0\<rparr>"
    by (simp add: stale_size_image_def)
  show ?thesis
    unfolding c by (simp add: get_inode_set_inode_same POINTERS_PER_INODE_def U32_def)
qed

lemma stale_size_slot: "get32 (contents stale_size_image (Suc 0)) 0 = 0"
  using valid_get_inode[of "contents stale_size_image (Suc 0)" 0] by (simp add: stale_size_inode)

lemma stale_size_create:
  "fs_create stale_size_fs =
     (stale_size_fs\<lparr>disk := Some (stale_size_image\<lparr>contents :=
        (contents stale_size_image)(1 := set32 (contents stale_size_image 1) 0 1)\<rparr>)\<rparr>, 0)"
proof -
  have d: "disk stale_size_fs = Some stale_size_image" "fd stale_size_image = 3"
    "blocks stale_size_image = 5" "inode_blocks (meta_data stale_size_fs) = Suc 0"
    by (simp_all add: stale_size_fs_def stale_size_image_def)
  have f: "find_invalid (contents stale_size_image (Suc 0)) 0 = Some 0"
    by (simp add: find_invalid_step stale_size_slot INODES_PER_BLOCK_def)
  have r: "disk_read (Some stale_size_image) (Suc 0) = Some (contents stale_size_image (Suc 0))"
    by (rule disk_read_ok) (simp_all add: d)
  have w: "disk_write (Some stale_size_image) (Suc 0) blk =
      (int BLOCK_SIZE, Some (stale_size_image\<lparr>contents := (contents stale_size_image)(Suc 0 := blk)\<rparr>))" for blk
    by (rule disk_write_ok) (simp_all add: d)
  have "create_from stale_size_fs (Suc 0) 0 =
     (stale_size_fs\<lparr>disk := Some (stale_size_image\<lparr>contents :=
        (contents stale_size_image)(Suc 0 := set32 (contents stale_size_image (Suc 0)) 0 (Suc 0))\<rparr>)\<rparr>, 0)"
    by (subst create_from_step) (simp_all add: d r f w to_ssize_def U64_def)
  then show ?thesis by (simp add: fs_create_def d)
qed

lemma stale_size_load:
  "fs_load_inode (stale_size_fs\<lparr>disk := Some (stale_size_image\<lparr>contents :=
        (contents stale_size_image)(1 := set32 (contents stale_size_image 1) 0 1)\<rparr>)\<rparr>) 0
   = Inr (Some \<lparr>valid = 1, isize = 4 * 4096, direct = [0, 0, 0, 0, 0], indirect = 0\<rparr>)"
proof -
  have g1: "get_inode (set32 (contents stale_size_image (Suc 0)) 0 (Suc 0)) 0 =
      \<lparr>valid = 1, isize = 4 * 4096, direct = [0, 0, 0, 0, 0], indirect = 0\<rparr>"
    using get_inode_set_valid[of "contents stale_size_image (Suc 0)" 0 "Suc 0"]
    by (simp add: stale_size_inode U32_def)
  have f: "0 \<le> fd (stale_size_image\<lparr>contents :=
        (contents stale_size_image)(1 := set32 (contents stale_size_image 1) 0 1)\<rparr>)"
    "1 + 0 div INODES_PER_BLOCK < blocks (stale_size_image\<lparr>contents :=
        (contents stale_size_image)(1 := set32 (contents stale_size_image 1) 0 1)\<rparr>)"
    by (simp_all add: stale_size_image_def)
  show ?thesis
    by (subst fs_load_inode_ok[OF _ f]) (simp_all add: g1 Let_def)
qed

theorem create_write_stale_size:
  "fs_mount (\<lambda>_. False) unmounted_fs (Some stale_size_image) = Inr (stale_size_fs, True)
   \<and> free_count stale_size_fs = 3
   \<and> fs_create stale_size_fs =
       (stale_size_fs\<lparr>disk := Some (stale_size_image\<lparr>contents :=
          (contents stale_size_image)(1 := set32 (contents stale_size_image 1) 0 1)\<rparr>)\<rparr>, 0)
   \<and> (\<exists>fs2. fs_write (stale_size_fs\<lparr>disk := Some (stale_size_image\<lparr>contents :=
          (contents stale_size_image)(1 := set32 (contents stale_size_image 1) 0 1)\<rparr>)\<rparr>) 0
          zero_buffer (4 * BLOCK_SIZE) 0 = Inr (fs2, 0)
        \<and> fs_stat fs2 0 = Inr (int (4 * BLOCK_SIZE)))"
proof -
  define fs1 where "fs1 = stale_size_fs\<lparr>disk := Some (stale_size_image\<lparr>contents :=
          (contents stale_size_image)(1 := set32 (contents stale_size_image 1) 0 1)\<rparr>)\<rparr>"
  define d1 where "d1 = stale_size_image\<lparr>contents :=
          (contents stale_size_image)(1 := set32 (contents stale_size_image 1) 0 1)\<rparr>"
  define nd where "nd = \<lparr>valid = 1, isize = 4 * 4096, direct = [0, 0, 0, 0, 0], indirect = 0\<rparr>"
  have ld: "fs_load_inode fs1 0 = Inr (Some nd)" unfolding fs1_def nd_def by (rule stale_size_load)
  have e: "fs_expand_file fs1 nd ((0 + 4 * BLOCK_SIZE) mod U64) = Inr (fs1, nd)"
    by (simp add: fs_expand_file_def UPPER_ROUND_def U32_def U64_def BLOCK_SIZE_def nd_def)
  have wd: "write_direct fs1 nd zero_buffer (4 * BLOCK_SIZE) (0 div BLOCK_SIZE) (0 mod BLOCK_SIZE) 0
      = Inr (None, fs1, 0, 0, 0)"
    by (simp add: write_direct_stop nd_def)
  have e1: "disk fs1 = Some d1" "0 \<le> fd d1" "1 + 0 div INODES_PER_BLOCK < blocks d1"
    by (simp_all add: fs1_def d1_def stale_size_image_def)
  note sv = fs_save_inode_ok[OF e1, of nd]
  have ind: "indirect nd = 0" by (simp add: nd_def)
  define fs2 where "fs2 = fs1\<lparr>disk := Some (d1\<lparr>contents := (contents d1)(1 + 0 div INODES_PER_BLOCK :=
        set_inode (contents d1 (1 + 0 div INODES_PER_BLOCK)) (0 mod INODES_PER_BLOCK) nd)\<rparr>)\<rparr>"
  have w: "fs_write fs1 0 zero_buffer (4 * BLOCK_SIZE) 0 = Inr (fs2, 0)"
    unfolding fs_write_def ld
    apply (simp only: sum.case option.case e prod.case Let_def wd)
    apply (simp add: ind sv fs2_def to_ssize_def)
    done
  have e2: "disk fs2 = Some (d1\<lparr>contents := (contents d1)(1 + 0 div INODES_PER_BLOCK :=
        set_inode (contents d1 (1 + 0 div INODES_PER_BLOCK)) (0 mod INODES_PER_BLOCK) nd)\<rparr>)"
    by (simp add: fs2_def)
  have "fs_load_inode fs2 0 = Inr (Some nd)"
    by (subst fs_load_inode_ok[OF e2])
       (simp_all add: d1_def stale_size_image_def get_inode_set_inode_same nd_def
          POINTERS_PER_INODE_def U32_def Let_def)
  from fs_stat_load[OF this] have st: "fs_stat fs2 0 = Inr (int (4 * BLOCK_SIZE))"
    by (simp add: nd_def BLOCK_SIZE_def)
  from w st have "\<exists>fs2. fs_write fs1 0 zero_buffer (4 * BLOCK_SIZE) 0 = Inr (fs2, 0)
        \<and> fs_stat fs2 0 = Inr (int (4 * BLOCK_SIZE))" by blast
  with stale_size_mount stale_size_free stale_size_create show ?thesis
    unfolding fs1_def by simp
qed

subsection \<open>Writing and reading back\<close>

lemma wf_inode_contents:
  assumes w: "wf_inode fs nd" and d: "disk fs = Some d" and b: "blocks d' = blocks d"
    and c: "POINTERS_PER_INODE < nblocks (isize nd) \<Longrightarrow>
            contents d' (indirect nd) = contents d (indirect nd)"
  shows "wf_inode (fs\<lparr>disk := Some d'\<rparr>) nd" "file_blocks d' nd = file_blocks d nd"
proof -
  note W = wf_inodeD[OF w d]
  have big: "POINTERS_PER_INODE < nblocks (isize nd)" if "indirect nd \<noteq> 0"
  proof (rule ccontr)
    assume "\<not> POINTERS_PER_INODE < nblocks (isize nd)"
    then have "indirect nd = 0" by (intro W(6)) simp
    with that show False by simp
  qed
  have ibl: "inode_block_list d' nd = inode_block_list d nd"
  proof (cases "indirect nd = 0")
    case True
    then show ?thesis by (simp add: inode_block_list_def)
  next
    case False
    from c[OF big[OF False]] show ?thesis by (simp add: inode_block_list_def)
  qed
  show "file_blocks d' nd = file_blocks d nd"
  proof (cases "POINTERS_PER_INODE < nblocks (isize nd)")
    case True
    from c[OF True] show ?thesis by (simp add: file_blocks_def)
  next
    case False
    then show ?thesis by (simp add: file_blocks_def)
  qed
  show "wf_inode (fs\<lparr>disk := Some d'\<rparr>) nd"
  proof (rule wf_inodeI[OF _ W(1) refl W(2)])
    show "disk (fs\<lparr>disk := Some d'\<rparr>) = Some d'" by simp
    show "ptr_array (fs\<lparr>disk := Some d'\<rparr>) (direct nd) (min (nblocks (isize nd)) POINTERS_PER_INODE)"
      using W(3) b d by simp
    show "POINTERS_PER_INODE < nblocks (isize nd) \<Longrightarrow> block_used (fs\<lparr>disk := Some d'\<rparr>) (indirect nd)"
      using W(4) b d by simp
    show "POINTERS_PER_INODE < nblocks (isize nd) \<Longrightarrow>
        ptr_array (fs\<lparr>disk := Some d'\<rparr>)
          (map (get32 (contents d' (indirect nd))) [0..<POINTERS_PER_BLOCK])
          (nblocks (isize nd) - POINTERS_PER_INODE)"
      using W(5) c b d by simp
    show "nblocks (isize nd) \<le> POINTERS_PER_INODE \<Longrightarrow> indirect nd = 0" by (rule W(6))
    show "distinct (inode_block_list d' nd)" unfolding ibl by (rule W(7))
  qed
qed

lemma fs_read_wf:
  assumes m: "mounted fs" and d: "disk fs = Some d"
    and ld: "fs_load_inode fs n = Inr (Some nd)" and w: "wf_inode fs nd"
    and le: "len \<le> isize nd"
  shows "fs_read fs n out len 0 = Inr (int len, fst (rloop (contents d) (file_blocks d nd) out len 0))"
proof -
  note W = wf_inodeD[OF w d]
  note FB = file_blocks_wf[OF w d]
  note U = UPPER_ROUND_U32[OF W(2)]
  define nb where "nb = nblocks (isize nd)"
  define mm where "mm = min nb POINTERS_PER_INODE"
  define as where "as = take mm (direct nd)"
  define es where "es = map (get32 (contents d (indirect nd))) [0..<POINTERS_PER_BLOCK]"
  define bs where "bs = take (nb - POINTERS_PER_INODE) es"
  have u32: "U32 \<le> U64" by (simp add: U32_def U64_def)
  with U(2) BLOCK_SIZE_pos(1) have s64: "isize nd < U64" by linarith
  then have lenm: "min len ((isize nd + U64 - 0) mod U64) = len" using le by simp
  have fb: "file_blocks d nd = as @ bs"
    by (simp add: file_blocks_def FB(6) as_def bs_def es_def mm_def nb_def)
  obtain data2 br2 where rl2: "rloop (contents d) (drop 0 as) out len 0 = (data2, br2)"
    by (cases "rloop (contents d) (drop 0 as) out len 0") auto
  from read_direct_rloop[OF W(3) W(1) m d, where i=0 and data=out and len=len and br=0 and buf=None] rl2
  obtain i2 buf2 where
    rd: "read_direct fs nd out len 0 0 0 None = Inr (None, data2, i2, 0, br2, buf2)"
    and i2: "br2 < len \<longrightarrow> i2 = max 0 mm"
    by (auto simp: as_def mm_def nb_def)
  obtain data3 br3 where rl3: "rloop (contents d) bs data2 len br2 = (data3, br3)"
    by (cases "rloop (contents d) bs data2 len br2") auto
  have total: "rloop (contents d) (file_blocks d nd) out len 0 = (data3, br3)"
    using rl2 rl3 by (simp add: fb rloop_append)
  have mid: "\<exists>i3 buf3. (if br2 < len \<and> indirect nd \<noteq> 0 then
         (case disk_read (disk fs) (indirect nd) of
            r \<Rightarrow>
              if read_status r = 0
              then Inr (Some (- 1), data2, i2, 0, br2, buf2)
              else
                (case r of
                   None \<Rightarrow> Inl Indeterminate
                 | Some indirect_block \<Rightarrow>
                     read_indirect fs indirect_block data2 len
                       ((i2 + U64 - POINTERS_PER_INODE) mod U64) 0 br2 buf2))
       else Inr (None, data2, i2, 0, br2, buf2)) = Inr (None, data3, i3, 0, br3, buf3)"
  proof (cases "br2 < len \<and> indirect nd \<noteq> 0")
    case True
    then have lt: "br2 < len" and nz: "indirect nd \<noteq> 0" by simp_all
    from nz W(6) have big: "POINTERS_PER_INODE < nb" unfolding nb_def by fastforce
    then have mm5: "mm = POINTERS_PER_INODE" by (simp add: mm_def)
    from i2 lt have i2e: "i2 = POINTERS_PER_INODE" by (simp add: mm5)
    have "POINTERS_PER_INODE < U64" by (simp add: POINTERS_PER_INODE_def U64_def)
    from wrap_index[OF order_refl this] have j: "(i2 + U64 - POINTERS_PER_INODE) mod U64 = 0"
      by (simp add: i2e)
    have ui: "block_used fs (indirect nd)" by (rule W(4)[OF big[unfolded nb_def]])
    note ilt = block_used_lt[OF ui d]
    have rdi: "disk_read (disk fs) (indirect nd) = Some (contents d (indirect nd))"
      using disk_read_ok[of d "indirect nd"] mounted_fd[OF m d] ilt by (simp add: d)
    note pe = W(5)[OF big[unfolded nb_def]]
    from read_indirect_rloop[OF pe m d, where i=0 and data=data2 and len=len and br=br2 and buf=buf2] rl3
    obtain i3 buf3 where "read_indirect fs (contents d (indirect nd)) data2 len 0 0 br2 buf2 =
        Inr (None, data3, i3, 0, br3, buf3)"
      by (auto simp: bs_def es_def nb_def)
    then show ?thesis using True unfolding rdi j by simp
  next
    case False
    have "(data3, br3) = (data2, br2)"
    proof (cases "br2 < len")
      case True
      with False have z: "indirect nd = 0" by simp
      have "\<not> POINTERS_PER_INODE < nb"
      proof
        assume "POINTERS_PER_INODE < nb"
        from block_used_nonzero[OF W(4)[OF this[unfolded nb_def]]] z show False by simp
      qed
      then have "bs = []" by (simp add: bs_def)
      with rl3 show ?thesis by simp
    next
      case False
      from rloop_done[OF this] rl3 show ?thesis by simp
    qed
    with False show ?thesis by auto
  qed
  then obtain i3 buf3 where mid': "(if br2 < len \<and> indirect nd \<noteq> 0 then
         (case disk_read (disk fs) (indirect nd) of
            r \<Rightarrow>
              if read_status r = 0
              then Inr (Some (- 1), data2, i2, 0, br2, buf2)
              else
                (case r of
                   None \<Rightarrow> Inl Indeterminate
                 | Some indirect_block \<Rightarrow>
                     read_indirect fs indirect_block data2 len
                       ((i2 + U64 - POINTERS_PER_INODE) mod U64) 0 br2 buf2))
       else Inr (None, data2, i2, 0, br2, buf2)) = Inr (None, data3, i3, 0, br3, buf3)"
    by blast
  have "br3 = snd (rloop (contents d) (file_blocks d nd) out len 0)" by (simp add: total)
  also have "\<dots> = min len (0 + length (file_blocks d nd) * BLOCK_SIZE)"
    by (rule rloop_count) simp
  also have "\<dots> = len" using le le_nblocks_mult[of "isize nd"] by (simp add: FB(1))
  finally have br3: "br3 = len" .
  from le U(2) have "len < 2 ^ 63" by (simp add: U32_def)
  then have ts: "to_ssize len = int len" by (simp add: to_ssize_def)
  have z0: "0 div BLOCK_SIZE = 0" "0 mod BLOCK_SIZE = 0" by simp_all
  have "fs_read fs n out len 0 = Inr (int len, data3)"
    unfolding fs_read_def
    apply (simp only: ld sum.case option.case lenm prod.case Let_def z0 rd mid')
    apply (simp add: br3 ts)
    done
  then show ?thesis by (simp add: total)
qed

lemma all_blocks_found:
  assumes "expand_post fs nd L fs' nd'" "disk fs = Some d" "disk fs' = Some d'"
    "nblocks (isize nd) = 0" "isize nd = 0"
    "L \<le> POINTERS_PER_INODE * BLOCK_SIZE + POINTERS_PER_BLOCK * BLOCK_SIZE"
    "nblocks L + (if POINTERS_PER_INODE < nblocks L then 1 else 0) \<le> free_count fs"
  shows "isize nd' = L"
proof -
  note EP = expand_postD[OF assms(1,2,3)]
  define nb' where "nb' = nblocks (isize nd')"
  define nbn where "nbn = nblocks L"
  have "L \<le> (POINTERS_PER_INODE + POINTERS_PER_BLOCK) * BLOCK_SIZE"
    using assms(6) by (simp add: add_mult_distrib)
  from nblocks_mono[OF this] have cap: "nbn \<le> POINTERS_PER_INODE + POINTERS_PER_BLOCK"
    by (simp add: nbn_def)
  from EP(11) assms(4) have a: "free_count fs' + nb' + (if POINTERS_PER_INODE < nb' then 1 else 0)
      = free_count fs" by (simp add: nb'_def)
  from EP(9) assms(4) have le: "nb' \<le> nbn" by (simp add: nb'_def nbn_def)
  have eq: "nb' = nbn"
  proof (rule ccontr)
    assume "nb' \<noteq> nbn"
    with le have lt: "nb' < nbn" by simp
    from EP(12)[folded nb'_def nbn_def, OF lt]
    have "free_count fs' = 0 \<or> nb' = POINTERS_PER_INODE + POINTERS_PER_BLOCK
       \<or> (nb' = POINTERS_PER_INODE \<and> free_count fs' = 1)" .
    with a lt cap assms(7)[folded nbn_def] show False by (auto split: if_splits)
  qed
  show ?thesis
  proof (cases "0 < nbn")
    case True
    with EP(10) assms(4) eq show ?thesis by (simp add: nb'_def nbn_def)
  next
    case False
    with EP(10) assms(4,5) show ?thesis by (simp add: nbn_def)
  qed
qed

lemma file_blocks_used:
  assumes "wf_inode fs nd" "disk fs = Some d" "b \<in> set (file_blocks d nd)"
  shows "block_used fs b"
  using file_blocks_wf(2)[OF assms(1,2)] wf_blocks_used[OF assms(1,2)] assms(3) by blast

lemma block_used_gt: "block_used fs b \<Longrightarrow> inode_blocks (meta_data fs) < b"
  by (simp add: block_used_def split: option.splits)

text \<open>
  Claim C1, amended. On a mounted file system whose block numbers fit the 32-bit
  pointers, let \<^verbatim>\<open>fs_create\<close> hand out a slot whose fields are all zero, as \<^verbatim>\<open>fs_format\<close> and
  \<^verbatim>\<open>fs_remove\<close> leave every invalid slot, and let \<open>L\<close> be at most
  \<open>POINTERS_PER_INODE * BLOCK_SIZE + POINTERS_PER_BLOCK * BLOCK_SIZE\<close>, with as many free
  data blocks as \<open>L\<close> bytes need (one more for the indirect block when these are more
  than \<open>POINTERS_PER_INODE\<close>). Then \<^verbatim>\<open>fs_write\<close> of \<open>L\<close> bytes of \<open>buf\<close> at offset 0 to the
  new inode returns \<open>L\<close>, and \<^verbatim>\<open>fs_read\<close> of \<open>L\<close> bytes at offset 0 then returns \<open>L\<close> with
  the first \<open>L\<close> bytes of \<open>buf\<close> in the caller's buffer.
\<close>

theorem write_read_round_trip:
  assumes m: "mounted fs" and d: "disk fs = Some d" and u: "blocks d \<le> U32"
    and c: "fs_create fs = (fs1, r)" and r0: "0 \<le> r"
    and z: "get_inode (contents d (1 + nat r div INODES_PER_BLOCK))
              (nat r mod INODES_PER_BLOCK) = zero_inode"
    and L: "L \<le> POINTERS_PER_INODE * BLOCK_SIZE + POINTERS_PER_BLOCK * BLOCK_SIZE"
    and fr: "nblocks L + (if POINTERS_PER_INODE < nblocks L then 1 else 0) \<le> free_count fs"
  shows "\<exists>fs2 out'. fs_write fs1 (nat r) buf L 0 = Inr (fs2, int L)
     \<and> fs_read fs2 (nat r) out L 0 = Inr (int L, out')
     \<and> (\<forall>k < L. out' k = buf k)"
proof -
  let ?n = "nat r"
  let ?ib = "1 + ?n div INODES_PER_BLOCK"
  let ?nd0 = "zero_inode\<lparr>valid := 1\<rparr>"
  from fs_create_fresh[OF m d c r0 z] obtain d1 where
    d1: "disk fs1 = Some d1" and b1: "blocks d1 = blocks d" and m1: "mounted fs1"
    and fc1: "free_count fs1 = free_count fs" and md1: "meta_data fs1 = meta_data fs"
    and ld: "fs_load_inode fs1 ?n = Inr (Some ?nd0)"
    and wf: "wf_inode fs1 ?nd0"
    and tb: "?n div INODES_PER_BLOCK < inode_blocks (meta_data fs)" by blast
  from b1 u have u1: "blocks d1 \<le> U32" by simp
  have "L \<le> (POINTERS_PER_INODE + POINTERS_PER_BLOCK) * BLOCK_SIZE"
    using L by (simp add: add_mult_distrib)
  then have o: "0 + L + BLOCK_SIZE \<le> U64"
    by (simp add: POINTERS_PER_INODE_def POINTERS_PER_BLOCK_def BLOCK_SIZE_def U64_def)
  from fs_write_result[OF m1 d1 u1 ld wf o, of buf] obtain fs' nd' d' c' where
    ep: "expand_post fs1 ?nd0 (0 + L) fs' nd'"
    and d': "disk fs' = Some d'"
    and c': "c' = fst (wloop (contents d') (drop (0 div BLOCK_SIZE) (file_blocks d' nd')) buf L
         (0 mod BLOCK_SIZE) 0)"
    and fw: "fs_write fs1 ?n buf L 0 =
        Inr (fs'\<lparr>disk := Some (d'\<lparr>contents := c'(?ib :=
               set_inode (c' ?ib) (?n mod INODES_PER_BLOCK) nd')\<rparr>)\<rparr>,
             int (min L (nblocks (isize nd') * BLOCK_SIZE - 0)))"
    and ld1: "fs_load_inode (fs'\<lparr>disk := Some (d'\<lparr>contents := c'(?ib :=
               set_inode (c' ?ib) (?n mod INODES_PER_BLOCK) nd')\<rparr>)\<rparr>) ?n
        = Inr (Some nd')"
    by blast
  from ep have ep': "expand_post fs1 ?nd0 L fs' nd'" by simp
  note EP = expand_postD[OF ep' d1 d']
  note FB = file_blocks_wf[OF EP(6) d']
  have n0: "nblocks (isize ?nd0) = 0" "isize ?nd0 = 0"
    by (simp_all add: zero_inode_def nblocks_def BLOCK_SIZE_def)
  from fr fc1 have fr1: "nblocks L + (if POINTERS_PER_INODE < nblocks L then 1 else 0) \<le> free_count fs1"
    by simp
  note sz = all_blocks_found[OF ep' d1 d' n0 L fr1]
  have bw: "min L (nblocks (isize nd') * BLOCK_SIZE - 0) = L"
    unfolding sz using le_nblocks_mult[of L] by simp
  define fb where "fb = file_blocks d' nd'"
  have c'': "c' = fst (wloop (contents d') fb buf L 0 0)" using c' by (simp add: fb_def)
  define c2 where "c2 = c'(?ib := set_inode (c' ?ib) (?n mod INODES_PER_BLOCK) nd')"
  define d2 where "d2 = d'\<lparr>contents := c2\<rparr>"
  define fs2 where "fs2 = fs'\<lparr>disk := Some d2\<rparr>"
  have fw': "fs_write fs1 ?n buf L 0 = Inr (fs2, int L)"
    using fw unfolding bw by (simp add: fs2_def d2_def c2_def)
  have ld2: "fs_load_inode fs2 ?n = Inr (Some nd')"
    using ld1 by (simp add: fs2_def d2_def c2_def)
  have d2f: "blocks d2 = blocks d'" "fd d2 = fd d'" by (simp_all add: d2_def)
  have m2: "mounted fs2" unfolding fs2_def by (rule mounted_disk_update[OF EP(1) d' d2f])
  have e2: "disk fs2 = Some d2" by (simp add: fs2_def)
  have ibl: "?ib \<le> inode_blocks (meta_data fs')" using tb EP(2) md1 by simp
  have other: "c2 b = c' b" if "block_used fs' b" for b
    using block_used_gt[OF that] ibl by (simp add: c2_def)
  have ind: "contents d2 (indirect nd') = contents d' (indirect nd')"
    if big: "POINTERS_PER_INODE < nblocks (isize nd')"
  proof -
    note W = wf_inodeD[OF EP(6) d']
    have "c2 (indirect nd') = c' (indirect nd')" by (rule other[OF W(4)[OF big]])
    moreover from FB(4)[OF big] have "indirect nd' \<notin> set fb" by (simp add: fb_def)
    from wloop_other[OF this, where c="contents d'" and data=buf and len=L and off=0 and bw=0]
    have "c' (indirect nd') = contents d' (indirect nd')" by (simp add: c'')
    ultimately show ?thesis by (simp add: d2_def)
  qed
  note WC = wf_inode_contents[OF EP(6) d' d2f(1) ind]
  have wf2: "wf_inode fs2 nd'" unfolding fs2_def by (rule WC(1))
  have fb2: "file_blocks d2 nd' = fb" unfolding fb_def by (rule WC(2))
  have le: "L \<le> isize nd'" by (simp add: sz)
  define out' where "out' = fst (rloop (contents d2) fb out L 0)"
  have rd: "fs_read fs2 ?n out L 0 = Inr (int L, out')"
    using fs_read_wf[OF m2 e2 ld2 wf2 le, of out] by (simp add: fb2 out'_def)
  have lfb: "length fb = nblocks L" using FB(1) by (simp add: fb_def sz)
  have content: "out' k = buf k" if k: "k < L" for k
  proof -
    define j where "j = k div BLOCK_SIZE"
    define q where "q = k mod BLOCK_SIZE"
    have kq: "0 + j * BLOCK_SIZE + q = k" by (simp add: j_def q_def)
    have ql: "q < BLOCK_SIZE" by (simp add: q_def)
    have jl: "j < length fb"
    proof (rule ccontr)
      assume "\<not> j < length fb"
      then have "nblocks L \<le> j" by (simp add: lfb)
      from mult_le_mono1[OF this, of BLOCK_SIZE] le_nblocks_mult[of L] kq k show False
        by linarith
    qed
    from kq k have lt: "0 + j * BLOCK_SIZE + q < L" by simp
    have "out' k = out' (0 + j * BLOCK_SIZE + q)" by (simp only: kq)
    also have "\<dots> = contents d2 (fb ! j) q"
      unfolding out'_def by (rule rloop_content[OF jl ql lt])
    also have "\<dots> = c' (fb ! j) q"
    proof -
      from jl have "fb ! j \<in> set (file_blocks d' nd')" by (simp add: fb_def)
      from other[OF file_blocks_used[OF EP(6) d' this]] show ?thesis by (simp add: d2_def)
    qed
    also have "\<dots> = buf (0 + j * BLOCK_SIZE + q)"
      unfolding c'' by (rule wloop_content[OF FB(3)[folded fb_def] jl ql lt])
    also have "\<dots> = buf k" by (simp only: kq)
    finally show ?thesis .
  qed
  show ?thesis
    apply (rule exI[of _ fs2], rule exI[of _ out'])
    apply (intro conjI allI impI)
      apply (rule fw')
     apply (rule rd)
    apply (erule content)
    done
qed

theorem write_read_round_trip_witness:
  "mounted tiny_fs \<and> disk tiny_fs = Some example_disk \<and> blocks example_disk \<le> U32
   \<and> fs_create tiny_fs =
        (tiny_fs\<lparr>disk := Some (example_disk\<lparr>contents :=
           (contents example_disk)(1 := set32 zero_block 0 1)\<rparr>)\<rparr>, 0)
   \<and> get_inode (contents example_disk (1 + nat 0 div INODES_PER_BLOCK))
        (nat 0 mod INODES_PER_BLOCK) = zero_inode
   \<and> (5 :: nat) \<le> POINTERS_PER_INODE * BLOCK_SIZE + POINTERS_PER_BLOCK * BLOCK_SIZE
   \<and> nblocks 5 + (if POINTERS_PER_INODE < nblocks 5 then 1 else 0) \<le> free_count tiny_fs
   \<and> (\<exists>fs2 out'.
         fs_write (tiny_fs\<lparr>disk := Some (example_disk\<lparr>contents :=
             (contents example_disk)(1 := set32 zero_block 0 1)\<rparr>)\<rparr>) (nat 0) (\<lambda>k. 7) 5 0
           = Inr (fs2, int 5)
       \<and> fs_read fs2 (nat 0) zero_buffer 5 0 = Inr (int 5, out')
       \<and> (\<forall>k < 5. out' k = 7))"
proof -
  have h: "(0 :: int) \<le> 0"
    "(5 :: nat) \<le> POINTERS_PER_INODE * BLOCK_SIZE + POINTERS_PER_BLOCK * BLOCK_SIZE"
    "nblocks 5 + (if POINTERS_PER_INODE < nblocks 5 then 1 else 0) \<le> free_count tiny_fs"
    by (simp_all add: POINTERS_PER_INODE_def BLOCK_SIZE_def nblocks_def tiny_fs_free)
  note T = write_read_round_trip [OF tiny_fs_mounted tiny_fs_disk tiny_fs_create h(1)
      tiny_slot_zero h(2) h(3), of "\<lambda>k. 7" zero_buffer]
  show ?thesis
    apply (intro conjI)
           apply (rule tiny_fs_mounted)
          apply (rule tiny_fs_disk(1))
         apply (rule tiny_fs_disk(2))
        apply (rule tiny_fs_create)
       apply (rule tiny_slot_zero)
      apply (rule h(2))
     apply (rule h(3))
    apply (rule T)
    done
qed

text \<open>
  Claim C1 says that a write of \<open>L\<close> bytes at offset 0 to a freshly created inode
  returns \<open>L\<close>. \<^verbatim>\<open>fs_create\<close> sets the field \<open>valid\<close> of the slot and leaves the other fields
  as they are: on the image with 3 free data blocks whose invalid slot 0 holds the
  size \<open>4 * BLOCK_SIZE\<close> and no pointer, \<^verbatim>\<open>fs_create\<close> returns 0 and a write of one byte at
  offset 0 to inode 0 finds nothing to expand and no block to write to: it returns 0.
\<close>

theorem create_write_one_stale_size:
  "fs_mount (\<lambda>_. False) unmounted_fs (Some stale_size_image) = Inr (stale_size_fs, True)
   \<and> free_count stale_size_fs = 3
   \<and> fs_create stale_size_fs =
       (stale_size_fs\<lparr>disk := Some (stale_size_image\<lparr>contents :=
          (contents stale_size_image)(1 := set32 (contents stale_size_image 1) 0 1)\<rparr>)\<rparr>, 0)
   \<and> (\<exists>fs2. fs_write (stale_size_fs\<lparr>disk := Some (stale_size_image\<lparr>contents :=
          (contents stale_size_image)(1 := set32 (contents stale_size_image 1) 0 1)\<rparr>)\<rparr>) 0
          zero_buffer 1 0 = Inr (fs2, 0))"
proof -
  define fs1 where "fs1 = stale_size_fs\<lparr>disk := Some (stale_size_image\<lparr>contents :=
          (contents stale_size_image)(1 := set32 (contents stale_size_image 1) 0 1)\<rparr>)\<rparr>"
  define d1 where "d1 = stale_size_image\<lparr>contents :=
          (contents stale_size_image)(1 := set32 (contents stale_size_image 1) 0 1)\<rparr>"
  define nd where "nd = \<lparr>valid = 1, isize = 4 * 4096, direct = [0, 0, 0, 0, 0], indirect = 0\<rparr>"
  have ld: "fs_load_inode fs1 0 = Inr (Some nd)" unfolding fs1_def nd_def by (rule stale_size_load)
  have e: "fs_expand_file fs1 nd ((0 + 1) mod U64) = Inr (fs1, nd)"
    by (simp add: fs_expand_file_def UPPER_ROUND_def U32_def U64_def BLOCK_SIZE_def nd_def)
  have wd: "write_direct fs1 nd zero_buffer 1 (0 div BLOCK_SIZE) (0 mod BLOCK_SIZE) 0
      = Inr (None, fs1, 0, 0, 0)"
    by (simp add: write_direct_stop nd_def)
  have e1: "disk fs1 = Some d1" "0 \<le> fd d1" "1 + 0 div INODES_PER_BLOCK < blocks d1"
    by (simp_all add: fs1_def d1_def stale_size_image_def)
  note sv = fs_save_inode_ok[OF e1, of nd]
  have ind: "indirect nd = 0" by (simp add: nd_def)
  define fs2 where "fs2 = fs1\<lparr>disk := Some (d1\<lparr>contents := (contents d1)(1 + 0 div INODES_PER_BLOCK :=
        set_inode (contents d1 (1 + 0 div INODES_PER_BLOCK)) (0 mod INODES_PER_BLOCK) nd)\<rparr>)\<rparr>"
  have w: "fs_write fs1 0 zero_buffer 1 0 = Inr (fs2, 0)"
    unfolding fs_write_def ld
    apply (simp only: sum.case option.case e prod.case Let_def wd)
    apply (simp add: ind sv fs2_def to_ssize_def)
    done
  then have "\<exists>fs2. fs_write fs1 0 zero_buffer 1 0 = Inr (fs2, 0)" by blast
  with stale_size_mount stale_size_free stale_size_create show ?thesis
    unfolding fs1_def by simp
qed

end
